theory Spec2Isabelle
  imports Main "HOL-Library.Sublist"
begin

section \<open>Python strings and POSIX paths\<close>

text \<open>
  The decorators of \<^verbatim>\<open>sublime/cli/decorator.py\<close> use three string operations of
  the Python standard library: \<^verbatim>\<open>str.strip\<close>, \<^verbatim>\<open>os.path.splitext\<close> and
  \<^verbatim>\<open>os.path.basename\<close>. They are modelled after CPython's \<^verbatim>\<open>posixpath\<close> and
  \<^verbatim>\<open>genericpath\<close> modules (separator \<^verbatim>\<open>/\<close>, no alternative separator,
  extension separator \<^verbatim>\<open>.\<close>). A Python string is a \<^typ>\<open>string\<close>.
\<close>

definition nl :: char where
  "nl = CHR 0x0A"

text \<open>\<^verbatim>\<open>s.strip(chars)\<close>: the characters of \<open>chars\<close> are removed at both ends.\<close>

definition strip :: "string \<Rightarrow> string \<Rightarrow> string" where
  "strip s chars =
     rev (dropWhile (\<lambda>c. c \<in> set chars) (rev (dropWhile (\<lambda>c. c \<in> set chars) s)))"

text \<open>\<^verbatim>\<open>s.rstrip(chars)\<close>: only trailing characters are removed.\<close>

definition rstrip :: "string \<Rightarrow> string \<Rightarrow> string" where
  "rstrip s chars = rev (dropWhile (\<lambda>c. c \<in> set chars) (rev s))"

text \<open>\<^verbatim>\<open>p.rfind(c)\<close> for a one-character \<open>c\<close>: the highest index of \<open>c\<close>, or \<open>-1\<close>.\<close>

fun rfind :: "string \<Rightarrow> char \<Rightarrow> int" where
  "rfind [] c = - 1"
| "rfind (x # xs) c =
     (let r = rfind xs c in if 0 \<le> r then r + 1 else if x = c then 0 else - 1)"

text \<open>\<^verbatim>\<open>p[a:b]\<close>, \<^verbatim>\<open>p[:b]\<close> and \<^verbatim>\<open>p[a:]\<close> for indices that are not negative
  (every index sliced with below is at least \<open>0\<close>).\<close>

definition slice :: "string \<Rightarrow> int \<Rightarrow> int \<Rightarrow> string" where
  "slice p a b = take (nat b - nat a) (drop (nat a) p)"

definition slice_to :: "string \<Rightarrow> int \<Rightarrow> string" where
  "slice_to p b = take (nat b) p"

definition slice_from :: "string \<Rightarrow> int \<Rightarrow> string" where
  "slice_from p a = drop (nat a) p"

text \<open>
  The loop of \<^verbatim>\<open>genericpath._splitext\<close> that skips the leading dots of the file name:
  \<^verbatim>\<open>
  while filenameIndex < dotIndex:
      if p[filenameIndex:filenameIndex+1] != extsep:
          return p[:dotIndex], p[dotIndex:]
      filenameIndex += 1
  return p, p[:0]
  \<close>
\<close>

function splitext_loop :: "string \<Rightarrow> int \<Rightarrow> int \<Rightarrow> string \<times> string" where
  "splitext_loop p filenameIndex dotIndex =
     (if filenameIndex < dotIndex then
        (if slice p filenameIndex (filenameIndex + 1) \<noteq> ''.''
         then (slice_to p dotIndex, slice_from p dotIndex)
         else splitext_loop p (filenameIndex + 1) dotIndex)
      else (p, slice_to p 0))"
  by pat_completeness auto
termination
  by (relation "measure (\<lambda>(p, f, d). nat (d - f))") auto

declare splitext_loop.simps [simp del]

text \<open>\<^verbatim>\<open>os.path.splitext(p)\<close>, that is \<^verbatim>\<open>_splitext(p, '/', None, '.')\<close>.\<close>

definition splitext :: "string \<Rightarrow> string \<times> string" where
  "splitext p =
     (let sepIndex = rfind p CHR ''/'';
          dotIndex = rfind p CHR ''.''
      in if dotIndex > sepIndex then splitext_loop p (sepIndex + 1) dotIndex
         else (p, slice_to p 0))"

text \<open>\<^verbatim>\<open>os.path.basename(p)\<close>: \<^verbatim>\<open>i = p.rfind('/') + 1; return p[i:]\<close>.\<close>

definition basename :: "string \<Rightarrow> string" where
  "basename p = (let i = rfind p CHR ''/'' + 1 in slice_from p i)"

text \<open>
  Lines 49 to 52 of \<^verbatim>\<open>echo_result\<close>: the default file name of the enriched message,
  from the name of the input file.
  \<^verbatim>\<open>
  input_file_relative_no_ext, _ = os.path.splitext(input_file_relative_name)
  input_file_name_no_ext = os.path.basename(input_file_relative_no_ext)
  output_file_name = f'{input_file_name_no_ext}.mdm'
  \<close>
\<close>

definition output_file_name :: "string \<Rightarrow> string" where
  "output_file_name input_file_relative_name =
     (let input_file_relative_no_ext = fst (splitext input_file_relative_name);
          input_file_name_no_ext = basename input_file_relative_no_ext
      in input_file_name_no_ext @ ''.mdm'')"

section \<open>Python values, exceptions and the world\<close>

text \<open>
  The objects the decorators handle: the result of the remote service, the body of an
  error response and the values of the configuration. A dictionary is an association
  list with distinct keys.
\<close>

datatype pyval =
    PNone
  | PBool bool
  | PInt int
  | PStr string
  | PList "pyval list"
  | PDict "(string \<times> pyval) list"

text \<open>Python's truth value of an object (\<^verbatim>\<open>not v\<close> is its negation).\<close>

fun truthy :: "pyval \<Rightarrow> bool" where
  "truthy PNone = False"
| "truthy (PBool b) = b"
| "truthy (PInt i) = (i \<noteq> 0)"
| "truthy (PStr s) = (s \<noteq> [])"
| "truthy (PList xs) = (xs \<noteq> [])"
| "truthy (PDict kvs) = (kvs \<noteq> [])"

text \<open>
  The exceptions that reach the decorators. \<open>RequestFailure\<close> carries the tuple
  \<^verbatim>\<open>exception.args\<close>; \<open>RequestException\<close> stands for
  \<^verbatim>\<open>requests.exceptions.RequestException\<close> and its subclasses and carries
  \<^verbatim>\<open>str(exception)\<close>; \<open>Exit\<close> is \<^verbatim>\<open>click.exceptions.Exit\<close>, which
  \<^verbatim>\<open>Context.exit(code)\<close> raises; \<open>OtherError\<close> is an exception of any other class.
\<close>

datatype exn =
    RequestFailure "pyval list"
  | RequestException string
  | Exit int
  | IndexError
  | KeyError string
  | TypeError
  | AttributeError
  | OtherError string

text \<open>\<^verbatim>\<open>Sublime(api_key=...)\<close>, the client of the remote service.\<close>

datatype client = Sublime pyval

text \<open>
  Everything the decorators can change: the text on standard output, the files of the
  current working directory (by the name they are opened with), the messages given to
  \<^verbatim>\<open>LOGGER.error\<close>, the clients constructed so far and the number of requests sent to
  the remote service.
\<close>

record world =
  stdout :: string
  files :: "string \<rightharpoonup> string"
  log :: "string list"
  clients :: "client list"
  requests :: nat

text \<open>A Python computation: it returns a value or raises, and changes the world.\<close>

type_synonym 'a py = "world \<Rightarrow> (exn + 'a) \<times> world"

section \<open>The collaborators outside the module\<close>

text \<open>
  An entry of \<^verbatim>\<open>FORMATTERS\<close> is a function of the result and the verbosity, or (for
  the text format) a dictionary with one such function for each subcommand.
\<close>

datatype formatter =
    Callable "pyval \<Rightarrow> bool \<Rightarrow> string"
  | PerCommand "string \<rightharpoonup> (pyval \<Rightarrow> bool \<Rightarrow> string)"

text \<open>
  What the module imports and this development takes as parameters: the table
  \<^verbatim>\<open>sublime.cli.formatter.FORMATTERS\<close>, the dictionary that
  \<^verbatim>\<open>sublime.util.load_config()\<close> returns, and Python's \<^verbatim>\<open>str\<close> (on objects that are
  not strings) and \<^verbatim>\<open>repr\<close> (on strings).
\<close>

record env =
  FORMATTERS :: "string \<rightharpoonup> formatter"
  load_config :: "string \<rightharpoonup> pyval"
  py_str :: "pyval \<Rightarrow> string"
  py_repr :: "string \<Rightarrow> string"

text \<open>
  The parameters click parses for a subcommand. \<open>api_key\<close> and \<open>output_file\<close> are
  \<open>None\<close> when the option is absent. The input file is open for reading and has the
  name it was given with. An output file \<^verbatim>\<open>-\<close> is standard output; any other one
  is a lazy file, opened at its first write. Neither subcommand has an option
  \<^verbatim>\<open>verbose\<close>, so \<^verbatim>\<open>params.get("verbose", False)\<close> is \<open>False\<close>.
\<close>

datatype stream = Stdout | OpenFile string | LazyFile string

record reader =
  name :: string

record params =
  api_key :: "string option"
  input_file :: reader
  detections_file :: "reader option"
  output_file :: "stream option"
  output_format :: string

text \<open>
  The click context (\<^verbatim>\<open>context\<close> in the source): the name of the running command, the \<^verbatim>\<open>info_name\<close> of the
  parent context (\<open>None\<close> when the command has no parent) and the parameters.
\<close>

record ctx =
  command_name :: string
  parent_info_name :: "string option"
  params :: params

section \<open>Output\<close>

text \<open>\<^verbatim>\<open>click.open_file(filename, mode="w")\<close>: the file is created or truncated at once;
  \<^verbatim>\<open>-\<close> is standard output.\<close>

definition open_file :: "string \<Rightarrow> world \<Rightarrow> stream \<times> world" where
  "open_file filename w =
     (if filename = ''-'' then (Stdout, w)
      else (OpenFile filename, w\<lparr>files := (files w)(filename \<mapsto> [])\<rparr>))"

text \<open>\<^verbatim>\<open>file.write(out)\<close>. A lazy file is created or truncated by its first write, and
  the decorators write to it once.\<close>

fun file_write :: "stream \<Rightarrow> string \<Rightarrow> world \<Rightarrow> world" where
  "file_write Stdout out w = w\<lparr>stdout := stdout w @ out\<rparr>"
| "file_write (OpenFile filename) out w =
     w\<lparr>files := (files w)(filename \<mapsto> (case files w filename of None \<Rightarrow> [] | Some c \<Rightarrow> c) @ out)\<rparr>"
| "file_write (LazyFile filename) out w = w\<lparr>files := (files w)(filename \<mapsto> out)\<rparr>"

text \<open>\<^verbatim>\<open>click.echo(message, file=file)\<close>: without a file the message goes to standard
  output; a newline follows the message.\<close>

definition echo :: "string \<Rightarrow> stream option \<Rightarrow> world \<Rightarrow> world" where
  "echo message file w =
     (let file = (case file of None \<Rightarrow> Stdout | Some f \<Rightarrow> f);
          out = message @ [nl]
      in file_write file out w)"

text \<open>\<^verbatim>\<open>LOGGER.error(error_message)\<close>.\<close>

definition LOGGER_error :: "string \<Rightarrow> world \<Rightarrow> world" where
  "LOGGER_error error_message w = w\<lparr>log := log w @ [error_message]\<rparr>"

section \<open>The decorators\<close>

subsection \<open>\<^verbatim>\<open>echo_result\<close>\<close>

text \<open>
  Lines 36 to 40: the formatter of the output format, and for a dictionary of
  formatters the one of the running command. A missing key raises \<^verbatim>\<open>KeyError\<close>.
\<close>

definition select_formatter :: "env \<Rightarrow> ctx \<Rightarrow> exn + (pyval \<Rightarrow> bool \<Rightarrow> string)" where
  "select_formatter env ctx =
     (let output_format = output_format (params ctx) in
      case FORMATTERS env output_format of
        None \<Rightarrow> Inl (KeyError output_format)
      | Some (Callable formatter) \<Rightarrow> Inr formatter
      | Some (PerCommand d) \<Rightarrow>
          (case d (command_name ctx) of
             None \<Rightarrow> Inl (KeyError (command_name ctx))
           | Some formatter \<Rightarrow> Inr formatter))"

text \<open>
  Lines 47 to 58: the enriched message is saved as JSON when the command is
  \<^verbatim>\<open>enrich\<close> and no output file was given. \<^verbatim>\<open>FORMATTERS["json"]\<close> is called as it
  is, so a dictionary there raises \<^verbatim>\<open>TypeError\<close>.
\<close>

definition save_mdm :: "env \<Rightarrow> ctx \<Rightarrow> pyval \<Rightarrow> unit py" where
  "save_mdm env ctx result w =
     (let input_file_relative_name = name (input_file (params ctx));
          output_file_name = output_file_name input_file_relative_name
      in case FORMATTERS env ''json'' of
           None \<Rightarrow> (Inl (KeyError ''json''), w)
         | Some (PerCommand d) \<Rightarrow> (Inl TypeError, w)
         | Some (Callable formatter) \<Rightarrow>
             (let output = strip (formatter result False) [nl];
                  (file, w1) = open_file output_file_name w
              in (Inr (), echo output (Some file) w1)))"

text \<open>
  The wrapper of \<^verbatim>\<open>echo_result\<close> (lines 32 to 58). \<^verbatim>\<open>params\<close> always has the key
  \<^verbatim>\<open>output_file\<close>, so \<^verbatim>\<open>params.get("output_file", ...)\<close> is its value, and
  \<^verbatim>\<open>click.echo\<close> writes to standard output when that is \<^verbatim>\<open>None\<close>. A file object
  is true, so \<^verbatim>\<open>not params.get("output_file")\<close> holds when no output file was given.
\<close>

definition echo_result :: "env \<Rightarrow> ctx \<Rightarrow> pyval py \<Rightarrow> unit py" where
  "echo_result env ctx function w =
     (case function w of
        (Inl e, w1) \<Rightarrow> (Inl e, w1)
      | (Inr result, w1) \<Rightarrow>
          (case select_formatter env ctx of
             Inl e \<Rightarrow> (Inl e, w1)
           | Inr formatter \<Rightarrow>
               (let output = strip (formatter result False) [nl];
                    w2 = echo output (output_file (params ctx)) w1
                in if command_name ctx = ''enrich'' \<and> output_file (params ctx) = None
                   then save_mdm env ctx result w2
                   else (Inr (), w2))))"

subsection \<open>\<^verbatim>\<open>handle_exceptions\<close>\<close>

text \<open>\<^verbatim>\<open>exception.args[1]\<close>: an index past the end of the tuple raises \<^verbatim>\<open>IndexError\<close>.\<close>

definition tuple_getitem :: "pyval list \<Rightarrow> nat \<Rightarrow> exn + pyval" where
  "tuple_getitem args i = (if i < length args then Inr (args ! i) else Inl IndexError)"

text \<open>\<^verbatim>\<open>body["detail"]\<close>: a dictionary without the key raises \<^verbatim>\<open>KeyError\<close>; on an
  object that is not a dictionary a string subscript raises \<^verbatim>\<open>TypeError\<close>.\<close>

fun getitem :: "pyval \<Rightarrow> string \<Rightarrow> exn + pyval" where
  "getitem (PDict kvs) k = (case map_of kvs k of None \<Rightarrow> Inl (KeyError k) | Some v \<Rightarrow> Inr v)"
| "getitem _ k = Inl TypeError"

text \<open>\<^verbatim>\<open>"{}".format(v)\<close>: a string as it is, any other object through \<^verbatim>\<open>str\<close>.\<close>

definition format_value :: "env \<Rightarrow> pyval \<Rightarrow> string" where
  "format_value env v = (case v of PStr s \<Rightarrow> s | _ \<Rightarrow> py_str env v)"

text \<open>
  The two \<^verbatim>\<open>except\<close> clauses (lines 77 to 87). An exception raised inside a clause
  leaves the \<^verbatim>\<open>try\<close> statement; \<^verbatim>\<open>Context.exit(-1)\<close> raises \<open>Exit (-1)\<close>.
\<close>

fun on_exception :: "env \<Rightarrow> exn \<Rightarrow> world \<Rightarrow> (exn + pyval) \<times> world" where
  "on_exception env (RequestFailure args) w =
     (case tuple_getitem args 1 of
        Inl e \<Rightarrow> (Inl e, w)
      | Inr body \<Rightarrow>
          (case getitem body ''detail'' of
             Inl e \<Rightarrow> (Inl e, w)
           | Inr detail \<Rightarrow>
               (let error_message = ''API error: '' @ format_value env detail;
                    w1 = LOGGER_error error_message w
                in (Inl (Exit (- 1)), w1))))"
| "on_exception env (RequestException s) w =
     (let error_message = ''API error: '' @ s;
          w1 = LOGGER_error error_message w
      in (Inl (Exit (- 1)), w1))"
| "on_exception env e w = (Inl e, w)"

text \<open>The wrapper of \<^verbatim>\<open>handle_exceptions\<close> (lines 74 to 87).\<close>

definition handle_exceptions :: "env \<Rightarrow> pyval py \<Rightarrow> pyval py" where
  "handle_exceptions env function w =
     (case function w of
        (Inr result, w1) \<Rightarrow> (Inr result, w1)
      | (Inl exception, w1) \<Rightarrow> on_exception env exception w1)"

subsection \<open>\<^verbatim>\<open>pass_api_client\<close>\<close>

text \<open>The message of lines 112 to 119, for the program name \<open>prog_name\<close>.\<close>

definition api_key_not_found :: "env \<Rightarrow> string \<Rightarrow> string" where
  "api_key_not_found env prog_name =
     [nl] @ ''Error: API key not found.'' @ [nl, nl]
     @ ''To fix this problem, please use any of the following methods ''
     @ ''(in order of precedence):'' @ [nl]
     @ ''- Pass it using the -k/--api-key option.'' @ [nl]
     @ ''- Set it in the SUBLIME_API_KEY environment variable.'' @ [nl]
     @ ''- Run '' @ py_repr env (prog_name @ '' setup'')
     @ '' to save it to the configuration file.'' @ [nl]"

text \<open>
  Modelled from the spec: the constructor of \<^verbatim>\<open>sublime.api.Sublime\<close> is not part of
  the module; constructing the client records it in the world and sends nothing.
\<close>

definition new_client :: "pyval \<Rightarrow> world \<Rightarrow> client \<times> world" where
  "new_client key w = (Sublime key, w\<lparr>clients := clients w @ [Sublime key]\<rparr>)"

text \<open>The wrapper of \<^verbatim>\<open>pass_api_client\<close> (lines 103 to 125).\<close>

definition pass_api_client :: "env \<Rightarrow> ctx \<Rightarrow> (client \<Rightarrow> 'a py) \<Rightarrow> 'a py" where
  "pass_api_client env ctx function w =
     (let config = load_config env in
      case api_key (params ctx) of
        Some k \<Rightarrow>
          (let (api_client, w1) = new_client (PStr k) w in function api_client w1)
      | None \<Rightarrow>
          (case config ''api_key'' of
             None \<Rightarrow> (Inl (KeyError ''api_key''), w)
           | Some v \<Rightarrow>
               if \<not> truthy v then
                 (case parent_info_name ctx of
                    None \<Rightarrow> (Inl AttributeError, w)
                  | Some prog_name \<Rightarrow>
                      (Inl (Exit (- 1)), echo (api_key_not_found env prog_name) None w))
               else (let (api_client, w1) = new_client v w in function api_client w1)))"

subsection \<open>The subcommands\<close>

text \<open>
  \<^verbatim>\<open>enrich_command\<close> and \<^verbatim>\<open>analyze_command\<close> stack the same decorators on the
  subcommand (lines 154 to 160 and 193 to 199): \<^verbatim>\<open>pass_api_client\<close> runs first and
  passes the client, \<^verbatim>\<open>click.pass_context\<close> passes the context, \<^verbatim>\<open>echo_result\<close>
  prints what \<^verbatim>\<open>handle_exceptions\<close> lets through. The subcommand itself, which
  talks to the remote service, is the parameter \<open>function\<close>.
\<close>

definition enrich_command :: "env \<Rightarrow> (ctx \<Rightarrow> client \<Rightarrow> pyval py) \<Rightarrow> ctx \<Rightarrow> unit py" where
  "enrich_command env function ctx =
     pass_api_client env ctx
       (\<lambda>api_client. echo_result env ctx (handle_exceptions env (function ctx api_client)))"

definition analyze_command :: "env \<Rightarrow> (ctx \<Rightarrow> client \<Rightarrow> pyval py) \<Rightarrow> ctx \<Rightarrow> unit py" where
  "analyze_command env function ctx =
     pass_api_client env ctx
       (\<lambda>api_client. echo_result env ctx (handle_exceptions env (function ctx api_client)))"

section \<open>Credentials and a sample run\<close>

text \<open>
  The key the client is built with (lines 105 to 124): the option \<^verbatim>\<open>--api-key\<close>
  when it is given, else the key of the configuration when that one is true.
\<close>

definition resolved_key :: "env \<Rightarrow> ctx \<Rightarrow> pyval option" where
  "resolved_key env ctx =
     (case api_key (params ctx) of
        Some k \<Rightarrow> Some (PStr k)
      | None \<Rightarrow>
          (case load_config env ''api_key'' of
             None \<Rightarrow> None
           | Some v \<Rightarrow> if truthy v then Some v else None))"

text \<open>
  A concrete environment, context and subcommand, on which the theorems below are
  instantiated. The sample formatters end their text with a newline, and the text
  formatter starts it with one. The sample subcommand sends one request and returns or
  raises what it is given.
\<close>

definition sample_json :: "pyval \<Rightarrow> bool \<Rightarrow> string" where
  "sample_json result verbose =
     ''json '' @ (case result of PStr s \<Rightarrow> s | _ \<Rightarrow> ''object'') @ [nl]"

definition sample_txt :: "pyval \<Rightarrow> bool \<Rightarrow> string" where
  "sample_txt result verbose =
     [nl] @ ''txt '' @ (case result of PStr s \<Rightarrow> s | _ \<Rightarrow> ''object'') @ [nl]"

definition sample_env :: env where
  "sample_env =
     \<lparr>FORMATTERS =
        [''json'' \<mapsto> Callable sample_json,
         ''txt'' \<mapsto> PerCommand [''enrich'' \<mapsto> sample_txt, ''analyze'' \<mapsto> sample_txt]],
      load_config = [''api_key'' \<mapsto> PNone],
      py_str = (\<lambda>v. ''object''),
      py_repr = (\<lambda>s. [CHR 0x27] @ s @ [CHR 0x27])\<rparr>"

definition sample_ctx :: "string \<Rightarrow> string option \<Rightarrow> stream option \<Rightarrow> string \<Rightarrow> ctx" where
  "sample_ctx command key out fmt =
     \<lparr>command_name = command,
      parent_info_name = Some ''sublime'',
      params =
        \<lparr>api_key = key,
         input_file = \<lparr>name = ''mail/message.eml''\<rparr>,
         detections_file = None,
         output_file = out,
         output_format = fmt\<rparr>\<rparr>"

definition sample_world :: world where
  "sample_world = \<lparr>stdout = [], files = Map.empty, log = [], clients = [], requests = 0\<rparr>"

definition remote_call :: "exn + pyval \<Rightarrow> ctx \<Rightarrow> client \<Rightarrow> pyval py" where
  "remote_call outcome ctx api_client w = (outcome, w\<lparr>requests := requests w + 1\<rparr>)"

section \<open>JSON text\<close>

text \<open>
  Modelled from the spec: the JSON formatter \<^verbatim>\<open>FORMATTERS["json"]\<close> lives in
  \<^verbatim>\<open>sublime.cli.formatter\<close>, outside the module, and the spec says of it only that
  it formats the result as JSON. It is modelled as the serializer of a result to JSON
  text without insignificant white space: \<^verbatim>\<open>null\<close>, \<^verbatim>\<open>true\<close>, \<^verbatim>\<open>false\<close>,
  integers in decimal, strings in double quotes with the quote, the backslash and the
  control characters escaped, arrays and objects. Results hold no floating-point
  numbers.
\<close>

definition dq :: char where
  "dq = CHR 0x22"

definition bs :: char where
  "bs = CHR 0x5C"

definition hexdigit :: "nat \<Rightarrow> char" where
  "hexdigit n = (if n < 10 then char_of (48 + n) else char_of (87 + n))"

definition hexval :: "char \<Rightarrow> nat option" where
  "hexval c =
     (let k = (of_char c :: nat) in
      if 48 \<le> k \<and> k \<le> 57 then Some (k - 48)
      else if 97 \<le> k \<and> k \<le> 102 then Some (k - 87)
      else if 65 \<le> k \<and> k \<le> 70 then Some (k - 55)
      else None)"

definition escape_char :: "char \<Rightarrow> string" where
  "escape_char c =
     (if c = dq then [bs, dq]
      else if c = bs then [bs, bs]
      else if (of_char c :: nat) < 32 then
        [bs, CHR ''u'', CHR ''0'', CHR ''0'',
         hexdigit ((of_char c :: nat) div 16), hexdigit ((of_char c :: nat) mod 16)]
      else [c])"

definition json_string :: "string \<Rightarrow> string" where
  "json_string s = [dq] @ concat (map escape_char s) @ [dq]"

function digits :: "nat \<Rightarrow> string" where
  "digits n = (if n < 10 then [char_of (48 + n)] else digits (n div 10) @ [char_of (48 + n mod 10)])"
  by pat_completeness auto
termination
  by (relation "measure id") auto

declare digits.simps [simp del]

definition json_int :: "int \<Rightarrow> string" where
  "json_int i = (if i < 0 then CHR ''-'' # digits (nat (- i)) else digits (nat i))"

fun json_dumps :: "pyval \<Rightarrow> string"
  and json_items :: "pyval list \<Rightarrow> string"
  and json_members :: "(string \<times> pyval) list \<Rightarrow> string" where
  "json_dumps PNone = ''null''"
| "json_dumps (PBool b) = (if b then ''true'' else ''false'')"
| "json_dumps (PInt i) = json_int i"
| "json_dumps (PStr s) = json_string s"
| "json_dumps (PList vs) = ''['' @ json_items vs @ '']''"
| "json_dumps (PDict kvs) = ''{'' @ json_members kvs @ ''}''"
| "json_items [] = []"
| "json_items (v # vs) = json_dumps v @ (if vs = [] then [] else '','' @ json_items vs)"
| "json_members [] = []"
| "json_members (kv # kvs) =
     json_string (fst kv) @ '':'' @ json_dumps (snd kv)
     @ (if kvs = [] then [] else '','' @ json_members kvs)"

text \<open>
  Modelled from the spec: the entry \<^verbatim>\<open>FORMATTERS["json"]\<close>, called with the result and
  the verbosity, returns the JSON text of the result.
\<close>

definition json_formatter :: "pyval \<Rightarrow> bool \<Rightarrow> string" where
  "json_formatter result verbose = json_dumps result"

text \<open>
  Modelled from the spec: the re-parsing of a JSON text, which the program itself never
  does. The parser reads any JSON text over the values above: white space between
  tokens and all escapes of strings. Its fuel bounds the nesting and the number of
  items, and the length of the text is enough of it.
\<close>

definition is_ws :: "char \<Rightarrow> bool" where
  "is_ws c = (c = CHR '' '' \<or> c = CHR 0x09 \<or> c = CHR 0x0A \<or> c = CHR 0x0D)"

definition skip_ws :: "string \<Rightarrow> string" where
  "skip_ws s = dropWhile is_ws s"

definition unescape :: "char \<Rightarrow> char option" where
  "unescape e =
     (if e = dq then Some dq
      else if e = bs then Some bs
      else if e = CHR ''/'' then Some CHR ''/''
      else if e = CHR ''b'' then Some (CHR 0x08)
      else if e = CHR ''f'' then Some (CHR 0x0C)
      else if e = CHR ''n'' then Some (CHR 0x0A)
      else if e = CHR ''r'' then Some (CHR 0x0D)
      else if e = CHR ''t'' then Some (CHR 0x09)
      else None)"

fun parse_chars :: "string \<Rightarrow> (string \<times> string) option" where
  "parse_chars [] = None"
| "parse_chars (c # cs) =
     (if c = dq then Some ([], cs)
      else if c = bs then
        (case cs of
           [] \<Rightarrow> None
         | e # cs1 \<Rightarrow>
             if e = CHR ''u'' then
               (case cs1 of
                  h1 # h2 # h3 # h4 # cs2 \<Rightarrow>
                    (case (hexval h1, hexval h2, hexval h3, hexval h4) of
                       (Some a, Some b, Some c', Some d) \<Rightarrow>
                         (let code = ((a * 16 + b) * 16 + c') * 16 + d in
                          if code < 256
                          then map_option (\<lambda>(s, r). (char_of code # s, r)) (parse_chars cs2)
                          else None)
                     | _ \<Rightarrow> None)
                | _ \<Rightarrow> None)
             else
               (case unescape e of
                  None \<Rightarrow> None
                | Some x \<Rightarrow> map_option (\<lambda>(s, r). (x # s, r)) (parse_chars cs1)))
      else if (of_char c :: nat) < 32 then None
      else map_option (\<lambda>(s, r). (c # s, r)) (parse_chars cs))"

definition is_digit :: "char \<Rightarrow> bool" where
  "is_digit c = (48 \<le> (of_char c :: nat) \<and> (of_char c :: nat) \<le> 57)"

definition digits_value :: "string \<Rightarrow> nat" where
  "digits_value ds = foldl (\<lambda>a c. 10 * a + ((of_char c :: nat) - 48)) 0 ds"

definition parse_int :: "string \<Rightarrow> (int \<times> string) option" where
  "parse_int s =
     (let (neg, s1) = (case s of [] \<Rightarrow> (False, s)
                       | c # cs \<Rightarrow> if c = CHR ''-'' then (True, cs) else (False, s));
          ds = takeWhile is_digit s1;
          rest = dropWhile is_digit s1
      in if ds = [] then None
         else Some (if neg then - int (digits_value ds) else int (digits_value ds), rest))"

fun parse_value :: "nat \<Rightarrow> string \<Rightarrow> (pyval \<times> string) option"
  and parse_items :: "nat \<Rightarrow> string \<Rightarrow> (pyval list \<times> string) option"
  and parse_members :: "nat \<Rightarrow> string \<Rightarrow> ((string \<times> pyval) list \<times> string) option" where
  "parse_value 0 s = None"
| "parse_value (Suc n) s =
     (case skip_ws s of
        [] \<Rightarrow> None
      | c # cs \<Rightarrow>
          if c = CHR ''n'' then (if take 3 cs = ''ull'' then Some (PNone, drop 3 cs) else None)
          else if c = CHR ''t'' then (if take 3 cs = ''rue'' then Some (PBool True, drop 3 cs) else None)
          else if c = CHR ''f'' then (if take 4 cs = ''alse'' then Some (PBool False, drop 4 cs) else None)
          else if c = dq then map_option (\<lambda>(x, r). (PStr x, r)) (parse_chars cs)
          else if c = CHR ''['' then
            (case skip_ws cs of
               [] \<Rightarrow> None
             | d # ds \<Rightarrow>
                 if d = CHR '']'' then Some (PList [], ds)
                 else map_option (\<lambda>(vs, r). (PList vs, r)) (parse_items n (d # ds)))
          else if c = CHR ''{'' then
            (case skip_ws cs of
               [] \<Rightarrow> None
             | d # ds \<Rightarrow>
                 if d = CHR ''}'' then Some (PDict [], ds)
                 else map_option (\<lambda>(kvs, r). (PDict kvs, r)) (parse_members n (d # ds)))
          else map_option (\<lambda>(i, r). (PInt i, r)) (parse_int (c # cs)))"
| "parse_items 0 s = None"
| "parse_items (Suc n) s =
     (case parse_value n s of
        None \<Rightarrow> None
      | Some (v, r) \<Rightarrow>
          (case skip_ws r of
             [] \<Rightarrow> None
           | c # cs \<Rightarrow>
               if c = CHR '']'' then Some ([v], cs)
               else if c = CHR '','' then map_option (\<lambda>(vs, r'). (v # vs, r')) (parse_items n cs)
               else None))"
| "parse_members 0 s = None"
| "parse_members (Suc n) s =
     (case skip_ws s of
        [] \<Rightarrow> None
      | c # cs \<Rightarrow>
          if c = dq then
            (case parse_chars cs of
               None \<Rightarrow> None
             | Some (k, r) \<Rightarrow>
                 (case skip_ws r of
                    [] \<Rightarrow> None
                  | colon # r1 \<Rightarrow>
                      if colon = CHR '':'' then
                        (case parse_value n r1 of
                           None \<Rightarrow> None
                         | Some (v, r2) \<Rightarrow>
                             (case skip_ws r2 of
                                [] \<Rightarrow> None
                              | e # r3 \<Rightarrow>
                                  if e = CHR ''}'' then Some ([(k, v)], r3)
                                  else if e = CHR '','' then
                                    map_option (\<lambda>(kvs, r'). ((k, v) # kvs, r')) (parse_members n r3)
                                  else None))
                      else None))
          else None)"

definition json_loads :: "string \<Rightarrow> pyval option" where
  "json_loads s =
     (case parse_value (length s) s of
        None \<Rightarrow> None
      | Some (v, rest) \<Rightarrow> if skip_ws rest = [] then Some v else None)"

section \<open>Facts about paths\<close>

lemma rfind_ge: "- 1 \<le> rfind p c"
  by (induction p) (auto simp: Let_def)

lemma rfind_lt: "rfind p c < int (length p)"
  by (induction p) (auto simp: Let_def)

lemma rfind_neg_iff: "rfind p c < 0 \<longleftrightarrow> c \<notin> set p"
  by (induction p) (auto simp: Let_def)

lemma rfind_notin: "c \<notin> set p \<Longrightarrow> rfind p c = - 1"
  using rfind_neg_iff [of p c] rfind_ge [of p c] by simp

lemma rfind_append:
  "rfind (xs @ ys) c = (if c \<in> set ys then int (length xs) + rfind ys c else rfind xs c)"
proof (induction xs)
  case Nil
  then show ?case by (simp add: rfind_notin)
next
  case (Cons x xs)
  then show ?case
    using rfind_neg_iff [of ys c] rfind_ge [of xs c] by (auto simp: Let_def)
qed

lemma rfind_last: "d \<noteq> [] \<Longrightarrow> last d = c \<Longrightarrow> rfind d c = int (length d) - 1"
proof -
  assume a: "d \<noteq> []" "last d = c"
  then have "d = butlast d @ [c]" by (metis append_butlast_last_id)
  then have "rfind d c = rfind (butlast d @ [c]) c" by simp
  also have "\<dots> = int (length (butlast d))" by (simp only: rfind_append) simp
  finally show ?thesis using a by (cases d) simp_all
qed

lemma head_basename: "take (nat (rfind p CHR ''/'' + 1)) p @ basename p = p"
  by (simp add: basename_def slice_from_def)

lemma basename_no_sep_aux: "c \<notin> set (drop (nat (rfind p c + 1)) p)"
proof (induction p)
  case Nil
  then show ?case by simp
next
  case (Cons x xs)
  show ?case
  proof (cases "0 \<le> rfind xs c")
    case True
    then have "nat (rfind (x # xs) c + 1) = Suc (nat (rfind xs c + 1))" by (simp add: Let_def nat_add_distrib)
    then show ?thesis using Cons by simp
  next
    case False
    then have "c \<notin> set xs" using rfind_neg_iff [of xs c] by simp
    then show ?thesis using False by (auto simp: Let_def)
  qed
qed

lemma basename_no_sep: "CHR ''/'' \<notin> set (basename p)"
  by (simp add: basename_def slice_from_def basename_no_sep_aux)

lemma head_last_aux: "0 \<le> rfind p c \<Longrightarrow> last (take (nat (rfind p c + 1)) p) = c"
proof (induction p)
  case Nil
  then show ?case by simp
next
  case (Cons x xs)
  show ?case
  proof (cases "0 \<le> rfind xs c")
    case True
    then have n: "nat (rfind (x # xs) c + 1) = Suc (nat (rfind xs c + 1))"
      by (simp add: Let_def nat_add_distrib)
    have "take (nat (rfind xs c + 1)) xs \<noteq> []" using True by (cases xs) auto
    then show ?thesis using Cons.IH True n by simp
  next
    case False
    then show ?thesis using Cons.prems by (auto simp: Let_def split: if_splits)
  qed
qed

lemma head_last:
  "take (nat (rfind p CHR ''/'' + 1)) p = [] \<or> last (take (nat (rfind p CHR ''/'' + 1)) p) = CHR ''/''"
proof (cases "0 \<le> rfind p CHR ''/''")
  case True
  then show ?thesis by (simp add: head_last_aux)
next
  case False
  then show ?thesis by simp
qed

lemma basename_append:
  assumes "CHR ''/'' \<notin> set b" and "d = [] \<or> last d = CHR ''/''"
  shows "basename (d @ b) = b"
proof -
  have "rfind (d @ b) CHR ''/'' = int (length d) - 1"
    using assms rfind_last [of d "CHR ''/''"] by (cases "d = []") (auto simp: rfind_append rfind_notin)
  then show ?thesis by (simp add: basename_def slice_from_def)
qed

lemma splitext_loop_shift:
  "0 \<le> k \<Longrightarrow>
   splitext_loop (d @ b) (int (length d) + k) (int (length d) + j) =
     (d @ fst (splitext_loop b k j), snd (splitext_loop b k j))"
proof (induction b k j rule: splitext_loop.induct)
  case (1 p filenameIndex dotIndex)
  show ?case
  proof (cases "filenameIndex < dotIndex")
    case False
    then show ?thesis
      by (simp add: splitext_loop.simps [of "d @ p"] splitext_loop.simps [of p] slice_to_def)
  next
    case True
    have s: "slice (d @ p) (int (length d) + filenameIndex) (int (length d) + filenameIndex + 1)
             = slice p filenameIndex (filenameIndex + 1)"
      using "1.prems" by (simp add: slice_def nat_add_distrib)
    show ?thesis
    proof (cases "slice p filenameIndex (filenameIndex + 1) \<noteq> ''.''")
      case True
      then show ?thesis
        using \<open>filenameIndex < dotIndex\<close> "1.prems" s
        by (simp add: splitext_loop.simps [of "d @ p"] splitext_loop.simps [of p]
            slice_to_def slice_from_def nat_add_distrib add.assoc)
    next
      case False
      then have "splitext_loop (d @ p) (int (length d) + (filenameIndex + 1)) (int (length d) + dotIndex) =
        (d @ fst (splitext_loop p (filenameIndex + 1) dotIndex), snd (splitext_loop p (filenameIndex + 1) dotIndex))"
        using "1.IH" True "1.prems" by simp
      then show ?thesis
        using \<open>filenameIndex < dotIndex\<close> False s
        by (simp add: splitext_loop.simps [of "d @ p" "int (length d) + filenameIndex"]
            splitext_loop.simps [of p filenameIndex] add.assoc)
    qed
  qed
qed

lemma splitext_loop_fst:
  "fst (splitext_loop p k j) = p \<or> fst (splitext_loop p k j) = take (nat j) p"
  by (induction p k j rule: splitext_loop.induct)
     (subst (1 2) splitext_loop.simps, auto simp: slice_to_def)

lemma splitext_fst_subset: "set (fst (splitext p)) \<subseteq> set p"
proof -
  have "fst (splitext p) = p \<or> (\<exists>j. fst (splitext p) = take (nat j) p)"
    using splitext_loop_fst [of p] by (auto simp: splitext_def Let_def)
  then show ?thesis by (auto dest: in_set_takeD)
qed

lemma splitext_append:
  assumes "CHR ''/'' \<notin> set b" and "d = [] \<or> last d = CHR ''/''"
  shows "fst (splitext (d @ b)) = d @ fst (splitext b)"
proof -
  have sep: "rfind (d @ b) CHR ''/'' = int (length d) - 1"
    using assms rfind_last [of d "CHR ''/''"] by (cases "d = []") (auto simp: rfind_append rfind_notin)
  have sepb: "rfind b CHR ''/'' = - 1" using assms by (simp add: rfind_notin)
  show ?thesis
  proof (cases "CHR ''.'' \<in> set b")
    case True
    then have dot: "rfind (d @ b) CHR ''.'' = int (length d) + rfind b CHR ''.''"
      by (simp add: rfind_append)
    have nn: "0 \<le> rfind b CHR ''.''" using True rfind_neg_iff [of b "CHR ''.''"] by simp
    have "splitext (d @ b) = splitext_loop (d @ b) (int (length d) + 0) (int (length d) + rfind b CHR ''.'')"
      using sep dot nn by (simp add: splitext_def)
    also have "\<dots> = (d @ fst (splitext_loop b 0 (rfind b CHR ''.'')), snd (splitext_loop b 0 (rfind b CHR ''.'')))"
      by (rule splitext_loop_shift) simp
    finally show ?thesis using sepb nn by (simp add: splitext_def)
  next
    case False
    then have dotb: "rfind b CHR ''.'' = - 1" by (simp add: rfind_notin)
    have dot: "rfind (d @ b) CHR ''.'' = rfind d CHR ''.''" using False by (simp add: rfind_append)
    have "rfind d CHR ''.'' \<le> int (length d) - 1"
    proof (cases "d = []")
      case True
      then show ?thesis by simp
    next
      case False
      then have "d = butlast d @ ''/''" using assms by (metis append_butlast_last_id)
      then have "rfind d CHR ''.'' = rfind (butlast d @ ''/'') CHR ''.''" by simp
      also have "\<dots> = rfind (butlast d) CHR ''.''" by (simp only: rfind_append) simp
      also have "\<dots> < int (length (butlast d))" by (rule rfind_lt)
      finally show ?thesis by simp
    qed
    then show ?thesis using sep dot dotb sepb by (simp add: splitext_def)
  qed
qed

lemma basename_splitext_commute: "basename (fst (splitext p)) = fst (splitext (basename p))"
proof -
  let ?d = "take (nat (rfind p CHR ''/'' + 1)) p" and ?b = "basename p"
  have b: "CHR ''/'' \<notin> set ?b" by (rule basename_no_sep)
  have d: "?d = [] \<or> last ?d = CHR ''/''" by (rule head_last)
  have "fst (splitext p) = ?d @ fst (splitext ?b)"
    using splitext_append [OF b d] by (simp add: head_basename)
  moreover have "CHR ''/'' \<notin> set (fst (splitext ?b))"
    using b splitext_fst_subset [of ?b] by auto
  ultimately show ?thesis using basename_append [OF _ d] by simp
qed


lemma basename_plain: "CHR ''/'' \<notin> set p \<Longrightarrow> basename p = p"
  using basename_append [of p "[]"] by simp

section \<open>The default file name of the enriched message\<close>

lemma output_file_name_eq: "output_file_name p = fst (splitext (basename p)) @ ''.mdm''"
  by (simp add: output_file_name_def basename_splitext_commute)

lemma save_mdm_files:
  "FORMATTERS env ''json'' = Some (Callable f) \<Longrightarrow>
   save_mdm env ctx result w =
     (Inr (), w\<lparr>files := (files w)(output_file_name (name (input_file (params ctx)))
        \<mapsto> strip (f result False) [nl] @ [nl])\<rparr>)"
proof -
  assume a: "FORMATTERS env ''json'' = Some (Callable f)"
  have ne: "output_file_name (name (input_file (params ctx))) \<noteq> ''-''"
    by (simp add: output_file_name_def)
  show ?thesis using a ne by (simp add: save_mdm_def open_file_def echo_def)
qed

text \<open>
  Claim C5. With no output file, \<^verbatim>\<open>enrich\<close> saves the enriched message under the
  name of the input file (its last path component) with the extension taken off, as
  \<^verbatim>\<open>os.path.splitext\<close> does, and \<^verbatim>\<open>.mdm\<close> put in its place; for an input name
  without a directory this is the given name itself without its extension. That name
  is the one file \<^verbatim>\<open>echo_result\<close> creates for the copy.
\<close>

theorem derived_name_strips_extension:
  "output_file_name p = fst (splitext (basename p)) @ ''.mdm''
   \<and> (CHR ''/'' \<notin> set p \<longrightarrow> output_file_name p = fst (splitext p) @ ''.mdm'')
   \<and> (FORMATTERS env ''json'' = Some (Callable f) \<longrightarrow>
        dom (files (snd (save_mdm env ctx result w))) =
          insert (fst (splitext (basename (name (input_file (params ctx))))) @ ''.mdm'') (dom (files w)))"
  by (simp add: output_file_name_eq basename_plain save_mdm_files)

theorem derived_name_strips_extension_witness:
  "output_file_name ''message.eml'' = ''message.mdm''
   \<and> fst (splitext ''message.eml'') = ''message''
   \<and> dom (files (snd (save_mdm sample_env (sample_ctx ''enrich'' None None ''txt'') (PStr ''ok'') sample_world)))
       = {''message.mdm''}"
proof -
  have e: "fst (splitext ''message.eml'') = ''message''" by code_simp
  have b: "basename ''mail/message.eml'' = ''message.eml''" by code_simp
  have b': "basename ''message.eml'' = ''message.eml''" by code_simp
  have n: "CHR ''/'' \<notin> set ''message.eml''" by simp
  have j: "FORMATTERS sample_env ''json'' = Some (Callable sample_json)"
    by (simp add: sample_env_def)
  have i: "name (input_file (params (sample_ctx ''enrich'' None None ''txt''))) = ''mail/message.eml''"
    by (simp add: sample_ctx_def)
  have w: "dom (files sample_world) = {}" by (simp add: sample_world_def)
  note t = derived_name_strips_extension [of "''message.eml''" sample_env sample_json
        "sample_ctx ''enrich'' None None ''txt''" "PStr ''ok''" sample_world]
  from t have 1: "output_file_name ''message.eml'' = ''message.mdm''" using e b' by simp
  from t j have "dom (files (snd (save_mdm sample_env (sample_ctx ''enrich'' None None ''txt'')
        (PStr ''ok'') sample_world))) = insert (fst (splitext (basename ''mail/message.eml'')) @ ''.mdm'')
        (dom (files sample_world))"
    unfolding i by blast
  then have 2: "dom (files (snd (save_mdm sample_env (sample_ctx ''enrich'' None None ''txt'')
        (PStr ''ok'') sample_world))) = {''message.mdm''}"
    unfolding b e w by simp
  show ?thesis using 1 2 e by simp
qed

text \<open>
  Claim C10. The default file name holds no path separator: the directory of the
  input file is dropped, so an input \<open>d/f\<close> gets the file name of the input \<open>f\<close>, and
  the copy is opened relative to the current working directory.
\<close>

theorem derived_name_drops_directory:
  "CHR ''/'' \<notin> set (output_file_name p)
   \<and> (CHR ''/'' \<notin> set f \<longrightarrow> output_file_name (d @ ''/'' @ f) = output_file_name f)"
proof -
  have "set (fst (splitext (basename p))) \<subseteq> set (basename p)" by (rule splitext_fst_subset)
  then have 1: "CHR ''/'' \<notin> set (output_file_name p)"
    using basename_no_sep [of p] by (auto simp: output_file_name_eq)
  have 2: "output_file_name (d @ ''/'' @ f) = output_file_name f" if "CHR ''/'' \<notin> set f"
  proof -
    have "basename ((d @ ''/'') @ f) = f" using that by (intro basename_append) simp_all
    then show ?thesis using that by (simp add: output_file_name_eq basename_plain)
  qed
  show ?thesis using 1 2 by simp
qed

theorem derived_name_drops_directory_witness:
  "CHR ''/'' \<notin> set (output_file_name ''mail/message.eml'')
   \<and> output_file_name ''mail/message.eml'' = ''message.mdm''"
proof -
  have e: "output_file_name ''message.eml'' = ''message.mdm''" by code_simp
  show ?thesis
    using derived_name_drops_directory [of "''mail/message.eml''" "''message.eml''" "''mail''"] e
    by simp
qed

section \<open>Runs of the subcommands\<close>

lemma pass_api_client_resolved:
  "resolved_key env ctx = Some key \<Longrightarrow>
   pass_api_client env ctx subcommand w =
     subcommand (Sublime key) (w\<lparr>clients := clients w @ [Sublime key]\<rparr>)"
  by (auto simp: resolved_key_def pass_api_client_def new_client_def
      split: option.splits if_splits)

lemma handle_exceptions_success:
  "subcommand w = (Inr result, w1) \<Longrightarrow> handle_exceptions env subcommand w = (Inr result, w1)"
  by (simp add: handle_exceptions_def)

lemma handle_exceptions_raise:
  "subcommand w = (Inl e, w1) \<Longrightarrow> handle_exceptions env subcommand w = on_exception env e w1"
  by (simp add: handle_exceptions_def)

lemma echo_result_success:
  "subcommand w = (Inr result, w1) \<Longrightarrow> select_formatter env ctx = Inr formatter \<Longrightarrow>
   echo_result env ctx subcommand w =
     (if command_name ctx = ''enrich'' \<and> output_file (params ctx) = None
      then save_mdm env ctx result (echo (strip (formatter result False) [nl]) (output_file (params ctx)) w1)
      else (Inr (), echo (strip (formatter result False) [nl]) (output_file (params ctx)) w1))"
  by (simp add: echo_result_def Let_def)

lemma echo_result_raise:
  "subcommand w = (Inl e, w1) \<Longrightarrow> echo_result env ctx subcommand w = (Inl e, w1)"
  by (simp add: echo_result_def)

lemma command_resolved:
  assumes "resolved_key env ctx = Some key"
  shows "enrich_command env subcommand ctx w =
           echo_result env ctx (handle_exceptions env (subcommand ctx (Sublime key)))
             (w\<lparr>clients := clients w @ [Sublime key]\<rparr>)"
    and "analyze_command env subcommand ctx w =
           echo_result env ctx (handle_exceptions env (subcommand ctx (Sublime key)))
             (w\<lparr>clients := clients w @ [Sublime key]\<rparr>)"
  using assms by (simp_all add: enrich_command_def analyze_command_def pass_api_client_resolved)

lemma select_formatter_json:
  "output_format (params ctx) = ''json'' \<Longrightarrow> FORMATTERS env ''json'' = Some (Callable json) \<Longrightarrow>
   select_formatter env ctx = Inr json"
  by (simp add: select_formatter_def)

lemma select_formatter_txt:
  "output_format (params ctx) = ''txt'' \<Longrightarrow> FORMATTERS env ''txt'' = Some (PerCommand d) \<Longrightarrow>
   d (command_name ctx) = Some txt \<Longrightarrow> select_formatter env ctx = Inr txt"
  by (simp add: select_formatter_def)

text \<open>
  Claim C1. An \<^verbatim>\<open>enrich\<close> run without an output file, whose key is resolved and whose
  remote call returns a result, prints the result in the selected format (\<^verbatim>\<open>json\<close> or
  \<^verbatim>\<open>txt\<close>) on standard output and also saves it, formatted as JSON, in the file with
  the default name; the file is written whatever the selected format is.
\<close>
theorem enrich_writes_stdout_and_mdm:
  assumes "command_name ctx = ''enrich''"
    and "output_file (params ctx) = None"
    and "resolved_key env ctx = Some key"
    and "subcommand ctx (Sublime key) (w\<lparr>clients := clients w @ [Sublime key]\<rparr>) = (Inr result, w1)"
    and "output_format (params ctx) = ''json'' \<or> output_format (params ctx) = ''txt''"
    and "FORMATTERS env ''json'' = Some (Callable json)"
    and "FORMATTERS env ''txt'' = Some (PerCommand d)"
    and "d ''enrich'' = Some txt"
  shows "enrich_command env subcommand ctx w =
     (Inr (),
      w1\<lparr>stdout := stdout w1
           @ strip ((if output_format (params ctx) = ''json'' then json else txt) result False) [nl]
           @ [nl],
         files := (files w1)(output_file_name (name (input_file (params ctx)))
           \<mapsto> strip (json result False) [nl] @ [nl])\<rparr>)"
proof -
  let ?f = "if output_format (params ctx) = ''json'' then json else txt"
  have sel: "select_formatter env ctx = Inr ?f"
    using assms(1,5-8) by (auto simp: select_formatter_json select_formatter_txt)
  have h: "handle_exceptions env (subcommand ctx (Sublime key))
             (w\<lparr>clients := clients w @ [Sublime key]\<rparr>) = (Inr result, w1)"
    using assms(4) by (rule handle_exceptions_success)
  have "enrich_command env subcommand ctx w =
          save_mdm env ctx result (echo (strip (?f result False) [nl]) None w1)"
    using assms(1,2) command_resolved(1) [OF assms(3)]
      echo_result_success [of "handle_exceptions env (subcommand ctx (Sublime key))", OF h sel]
    by simp
  also have "\<dots> = (Inr (), (echo (strip (?f result False) [nl]) None w1)
      \<lparr>files := (files (echo (strip (?f result False) [nl]) None w1))
         (output_file_name (name (input_file (params ctx))) \<mapsto> strip (json result False) [nl] @ [nl])\<rparr>)"
    using assms(6) by (rule save_mdm_files)
  finally show ?thesis by (simp add: echo_def)
qed

theorem enrich_writes_stdout_and_mdm_witness:
  "enrich_command sample_env (remote_call (Inr (PStr ''ok'')))
     (sample_ctx ''enrich'' (Some ''key'') None ''txt'') sample_world =
   (Inr (),
    \<lparr>stdout = ''txt ok'' @ [nl],
     files = [''message.mdm'' \<mapsto> ''json ok'' @ [nl]],
     log = [],
     clients = [Sublime (PStr ''key'')],
     requests = 1\<rparr>)"
proof -
  let ?ctx = "sample_ctx ''enrich'' (Some ''key'') None ''txt''"
  have n: "output_file_name ''mail/message.eml'' = ''message.mdm''" by code_simp
  have s1: "strip (sample_txt (PStr ''ok'') False) [nl] = ''txt ok''"
    by (simp add: strip_def sample_txt_def nl_def)
  have s2: "strip (sample_json (PStr ''ok'') False) [nl] = ''json ok''"
    by (simp add: strip_def sample_json_def nl_def)
  have "enrich_command sample_env (remote_call (Inr (PStr ''ok''))) ?ctx sample_world =
     (Inr (),
      (sample_world\<lparr>clients := [Sublime (PStr ''key'')], requests := 1\<rparr>)
        \<lparr>stdout := stdout (sample_world\<lparr>clients := [Sublime (PStr ''key'')], requests := 1\<rparr>)
           @ strip ((if output_format (params ?ctx) = ''json'' then sample_json else sample_txt)
                (PStr ''ok'') False) [nl]
           @ [nl],
         files := (files (sample_world\<lparr>clients := [Sublime (PStr ''key'')], requests := 1\<rparr>))
           (output_file_name (name (input_file (params ?ctx)))
           \<mapsto> strip (sample_json (PStr ''ok'') False) [nl] @ [nl])\<rparr>)"
    by (rule enrich_writes_stdout_and_mdm [where key = "PStr ''key''"
          and d = "[''enrich'' \<mapsto> sample_txt, ''analyze'' \<mapsto> sample_txt]"])
       (simp_all add: sample_ctx_def sample_env_def resolved_key_def remote_call_def sample_world_def)
  then show ?thesis
    by (simp add: sample_ctx_def sample_world_def n s1 s2)
qed


text \<open>
  Claim C2. Without the option \<^verbatim>\<open>--api-key\<close> and with a configuration whose key is
  empty or \<^verbatim>\<open>None\<close>, either subcommand prints the message "API key not found" and
  exits with code \<open>-1\<close>, whatever the subcommand would do: no client is constructed and
  no request is sent.
\<close>
theorem missing_api_key_exits_before_client:
  assumes "api_key (params ctx) = None"
    and "load_config env ''api_key'' = Some v"
    and "\<not> truthy v"
    and "parent_info_name ctx = Some prog_name"
  shows "enrich_command env subcommand ctx w =
           (Inl (Exit (- 1)), w\<lparr>stdout := stdout w @ api_key_not_found env prog_name @ [nl]\<rparr>)
       \<and> analyze_command env subcommand ctx w =
           (Inl (Exit (- 1)), w\<lparr>stdout := stdout w @ api_key_not_found env prog_name @ [nl]\<rparr>)
       \<and> sublist ''Error: API key not found.'' (api_key_not_found env prog_name)
       \<and> clients (snd (enrich_command env subcommand ctx w)) = clients w
       \<and> requests (snd (enrich_command env subcommand ctx w)) = requests w
       \<and> clients (snd (analyze_command env subcommand ctx w)) = clients w
       \<and> requests (snd (analyze_command env subcommand ctx w)) = requests w"
proof -
  have p: "pass_api_client env ctx g w =
      (Inl (Exit (- 1)), w\<lparr>stdout := stdout w @ api_key_not_found env prog_name @ [nl]\<rparr>)"
    for g :: "client \<Rightarrow> unit py"
    using assms by (simp add: pass_api_client_def echo_def)
  have s: "sublist ''Error: API key not found.'' (api_key_not_found env prog_name)"
    unfolding api_key_not_found_def by (rule sublist_appendI)
  show ?thesis using s by (simp add: enrich_command_def analyze_command_def p)
qed

theorem missing_api_key_exits_before_client_witness:
  "enrich_command sample_env (remote_call (Inr (PStr ''ok'')))
     (sample_ctx ''enrich'' None None ''txt'') sample_world =
     (Inl (Exit (- 1)),
      \<lparr>stdout = api_key_not_found sample_env ''sublime'' @ [nl],
       files = Map.empty, log = [], clients = [], requests = 0\<rparr>)"
proof -
  let ?ctx = "sample_ctx ''enrich'' None None ''txt''"
  have "api_key (params ?ctx) = None" "load_config sample_env ''api_key'' = Some PNone"
    "\<not> truthy PNone" "parent_info_name ?ctx = Some ''sublime''"
    by (simp_all add: sample_ctx_def sample_env_def)
  from missing_api_key_exits_before_client [OF this, of "remote_call (Inr (PStr ''ok''))" sample_world]
  show ?thesis by (simp add: sample_world_def)
qed

text \<open>
  Claim C3. When the remote call raises a transport error, or an API error whose second
  argument is a dictionary with the key \<^verbatim>\<open>detail\<close>, either subcommand logs
  "API error: " followed by the detail and exits with code \<open>-1\<close>; standard output and
  the files stay as the remote call left them, so neither the output target nor a
  default file is written.
\<close>
theorem remote_failure_logs_and_exits:
  assumes "resolved_key env ctx = Some key"
    and "subcommand ctx (Sublime key) (w\<lparr>clients := clients w @ [Sublime key]\<rparr>) = (Inl exception, w1)"
    and "(exception = RequestException s \<and> detail_text = s)
       \<or> (exception = RequestFailure args \<and> 1 < length args \<and> args ! 1 = PDict body
          \<and> map_of body ''detail'' = Some detail \<and> detail_text = format_value env detail)"
  shows "enrich_command env subcommand ctx w =
           (Inl (Exit (- 1)), w1\<lparr>log := log w1 @ [''API error: '' @ detail_text]\<rparr>)
       \<and> analyze_command env subcommand ctx w =
           (Inl (Exit (- 1)), w1\<lparr>log := log w1 @ [''API error: '' @ detail_text]\<rparr>)
       \<and> stdout (snd (enrich_command env subcommand ctx w)) = stdout w1
       \<and> files (snd (enrich_command env subcommand ctx w)) = files w1
       \<and> stdout (snd (analyze_command env subcommand ctx w)) = stdout w1
       \<and> files (snd (analyze_command env subcommand ctx w)) = files w1"
proof -
  have o: "on_exception env exception w1 =
      (Inl (Exit (- 1)), w1\<lparr>log := log w1 @ [''API error: '' @ detail_text]\<rparr>)"
    using assms(3) by (auto simp: tuple_getitem_def LOGGER_error_def)
  have h: "handle_exceptions env (subcommand ctx (Sublime key))
             (w\<lparr>clients := clients w @ [Sublime key]\<rparr>) =
      (Inl (Exit (- 1)), w1\<lparr>log := log w1 @ [''API error: '' @ detail_text]\<rparr>)"
    using handle_exceptions_raise [of "subcommand ctx (Sublime key)", OF assms(2)] o by simp
  have e: "echo_result env ctx (handle_exceptions env (subcommand ctx (Sublime key)))
             (w\<lparr>clients := clients w @ [Sublime key]\<rparr>) =
      (Inl (Exit (- 1)), w1\<lparr>log := log w1 @ [''API error: '' @ detail_text]\<rparr>)"
    using echo_result_raise [of "handle_exceptions env (subcommand ctx (Sublime key))", OF h] .
  show ?thesis by (simp add: command_resolved [OF assms(1)] e)
qed

theorem remote_failure_logs_and_exits_witness:
  "analyze_command sample_env
     (remote_call (Inl (RequestFailure [PInt 400, PDict [(''detail'', PStr ''bad target'')]])))
     (sample_ctx ''analyze'' (Some ''key'') None ''txt'') sample_world =
     (Inl (Exit (- 1)),
      \<lparr>stdout = [], files = Map.empty, log = [''API error: bad target''],
       clients = [Sublime (PStr ''key'')], requests = 1\<rparr>)
   \<and> sublist ''bad target'' ''API error: bad target''"
proof -
  let ?ctx = "sample_ctx ''analyze'' (Some ''key'') None ''txt''"
  let ?args = "[PInt 400, PDict [(''detail'', PStr ''bad target'')]]"
  let ?w1 = "sample_world\<lparr>clients := [Sublime (PStr ''key'')], requests := 1\<rparr>"
  have 1: "resolved_key sample_env ?ctx = Some (PStr ''key'')"
    by (simp add: resolved_key_def sample_ctx_def)
  have 2: "remote_call (Inl (RequestFailure ?args)) ?ctx (Sublime (PStr ''key''))
      (sample_world\<lparr>clients := clients sample_world @ [Sublime (PStr ''key'')]\<rparr>)
      = (Inl (RequestFailure ?args), ?w1)"
    by (simp add: remote_call_def sample_world_def)
  have 3: "(RequestFailure ?args = RequestException [] \<and> ''bad target'' = [])
       \<or> (RequestFailure ?args = RequestFailure ?args \<and> 1 < length ?args
          \<and> ?args ! 1 = PDict [(''detail'', PStr ''bad target'')]
          \<and> map_of [(''detail'', PStr ''bad target'')] ''detail'' = Some (PStr ''bad target'')
          \<and> ''bad target'' = format_value sample_env (PStr ''bad target''))"
    by (simp add: format_value_def)
  have 4: "sublist ''bad target'' (''API error: '' @ ''bad target'' @ [])"
    by (rule sublist_appendI)
  from remote_failure_logs_and_exits [where subcommand = "remote_call (Inl (RequestFailure ?args))", OF 1 2 3] 4
  show ?thesis by (simp add: sample_world_def)
qed

text \<open>
  Claim C4. An \<^verbatim>\<open>enrich\<close> run with an output file writes the formatted result once,
  to that file (or to standard output for \<^verbatim>\<open>-\<close>), and touches no other file: the
  copy under the default name is not made.
\<close>
theorem explicit_output_is_the_only_write:
  assumes "command_name ctx = ''enrich''"
    and "output_file (params ctx) = Some target"
    and "resolved_key env ctx = Some key"
    and "subcommand ctx (Sublime key) (w\<lparr>clients := clients w @ [Sublime key]\<rparr>) = (Inr result, w1)"
    and "select_formatter env ctx = Inr formatter"
  shows "enrich_command env subcommand ctx w =
           (Inr (), file_write target (strip (formatter result False) [nl] @ [nl]) w1)
       \<and> (\<forall>f. target = LazyFile f \<longrightarrow>
             file_write target (strip (formatter result False) [nl] @ [nl]) w1 =
               w1\<lparr>files := (files w1)(f \<mapsto> strip (formatter result False) [nl] @ [nl])\<rparr>)
       \<and> (target = Stdout \<longrightarrow>
             file_write target (strip (formatter result False) [nl] @ [nl]) w1 =
               w1\<lparr>stdout := stdout w1 @ strip (formatter result False) [nl] @ [nl]\<rparr>)
       \<and> (\<forall>n. target \<noteq> LazyFile n \<and> target \<noteq> OpenFile n \<longrightarrow>
             files (snd (enrich_command env subcommand ctx w)) n = files w1 n)"
proof -
  have h: "handle_exceptions env (subcommand ctx (Sublime key))
             (w\<lparr>clients := clients w @ [Sublime key]\<rparr>) = (Inr result, w1)"
    using assms(4) by (rule handle_exceptions_success)
  have 1: "enrich_command env subcommand ctx w =
           (Inr (), file_write target (strip (formatter result False) [nl] @ [nl]) w1)"
    using assms(2) command_resolved(1) [OF assms(3)]
      echo_result_success [of "handle_exceptions env (subcommand ctx (Sublime key))", OF h assms(5)]
    by (simp add: echo_def)
  have 2: "files (file_write target out w1) n = files w1 n"
    if "target \<noteq> LazyFile n \<and> target \<noteq> OpenFile n" for n out
    using that by (cases target) auto
  show ?thesis using 1 2 by simp
qed

theorem explicit_output_is_the_only_write_witness:
  "enrich_command sample_env (remote_call (Inr (PStr ''ok'')))
     (sample_ctx ''enrich'' (Some ''key'') (Some (LazyFile ''out.json'')) ''json'') sample_world =
   (Inr (),
    \<lparr>stdout = [],
     files = [''out.json'' \<mapsto> ''json ok'' @ [nl]],
     log = [],
     clients = [Sublime (PStr ''key'')],
     requests = 1\<rparr>)
   \<and> files (snd (enrich_command sample_env (remote_call (Inr (PStr ''ok'')))
     (sample_ctx ''enrich'' (Some ''key'') (Some (LazyFile ''out.json'')) ''json'') sample_world))
       ''message.mdm'' = None"
proof -
  let ?ctx = "sample_ctx ''enrich'' (Some ''key'') (Some (LazyFile ''out.json'')) ''json''"
  let ?w1 = "sample_world\<lparr>clients := [Sublime (PStr ''key'')], requests := 1\<rparr>"
  have 1: "command_name ?ctx = ''enrich''" by (simp add: sample_ctx_def)
  have 2: "output_file (params ?ctx) = Some (LazyFile ''out.json'')" by (simp add: sample_ctx_def)
  have 3: "resolved_key sample_env ?ctx = Some (PStr ''key'')"
    by (simp add: resolved_key_def sample_ctx_def)
  have 4: "remote_call (Inr (PStr ''ok'')) ?ctx (Sublime (PStr ''key''))
      (sample_world\<lparr>clients := clients sample_world @ [Sublime (PStr ''key'')]\<rparr>)
      = (Inr (PStr ''ok''), ?w1)"
    by (simp add: remote_call_def sample_world_def)
  have 5: "select_formatter sample_env ?ctx = Inr sample_json"
    by (simp add: select_formatter_def sample_env_def sample_ctx_def)
  have s: "strip (sample_json (PStr ''ok'') False) [nl] = ''json ok''"
    by (simp add: strip_def sample_json_def nl_def)
  from explicit_output_is_the_only_write [where subcommand = "remote_call (Inr (PStr ''ok''))", OF 1 2 3 4 5]
  show ?thesis by (simp add: s sample_world_def)
qed


section \<open>Facts about strip\<close>

lemma last_dropWhile: "dropWhile P xs \<noteq> [] \<Longrightarrow> last (dropWhile P xs) = last xs"
  by (metis last_appendR takeWhile_dropWhile_id)

lemma dropWhile_rev_nonempty: "dropWhile P (rev xs) \<noteq> [] \<Longrightarrow> xs \<noteq> []"
  by auto

lemma strip_decomp:
  "\<exists>a b. s = a @ strip s cs @ b \<and> set a \<subseteq> set cs \<and> set b \<subseteq> set cs"
proof -
  let ?P = "\<lambda>c. c \<in> set cs"
  let ?t = "dropWhile ?P s"
  let ?a = "takeWhile ?P s" and ?b = "rev (takeWhile ?P (rev ?t))"
  have "rev ?t = takeWhile ?P (rev ?t) @ dropWhile ?P (rev ?t)" by simp
  then have "?t = rev (dropWhile ?P (rev ?t)) @ rev (takeWhile ?P (rev ?t))"
    by (metis rev_append rev_rev_ident)
  then have t: "?t = strip s cs @ ?b" unfolding strip_def .
  have "s = ?a @ ?t" by simp
  then have 1: "s = ?a @ strip s cs @ ?b" using t by simp
  have 2: "set ?a \<subseteq> set cs" by (auto dest: set_takeWhileD)
  have 3: "set ?b \<subseteq> set cs" by (auto dest: set_takeWhileD)
  show ?thesis using 1 2 3 by blast
qed

lemma strip_ends:
  assumes "strip s cs \<noteq> []"
  shows "hd (strip s cs) \<notin> set cs" and "last (strip s cs) \<notin> set cs"
proof -
  let ?P = "\<lambda>c. c \<in> set cs"
  let ?t = "dropWhile ?P s"
  let ?u = "dropWhile ?P (rev ?t)"
  have u: "?u \<noteq> []" using assms by (simp add: strip_def)
  have t: "?t \<noteq> []" using u by (rule dropWhile_rev_nonempty)
  have "last (strip s cs) = hd ?u" using u by (simp add: strip_def last_rev)
  then show "last (strip s cs) \<notin> set cs" using hd_dropWhile [OF u] by simp
  have "hd (strip s cs) = last ?u" using u by (simp add: strip_def hd_rev)
  also have "\<dots> = last (rev ?t)" using u by (rule last_dropWhile)
  also have "\<dots> = hd ?t" using t by (simp add: last_rev)
  finally show "hd (strip s cs) \<notin> set cs" using hd_dropWhile [OF t] by simp
qed

lemma strip_eq_rstrip: "s = [] \<or> hd s \<notin> set cs \<Longrightarrow> strip s cs = rstrip s cs"
proof -
  assume "s = [] \<or> hd s \<notin> set cs"
  then have "dropWhile (\<lambda>c. c \<in> set cs) s = s" by (cases s) auto
  then show ?thesis by (simp add: strip_def rstrip_def)
qed

section \<open>The error handler\<close>

text \<open>
  Claim C6. \<^verbatim>\<open>handle_exceptions\<close> turns a transport error, and an API error with a
  detail, into a logged message and an exit with code \<open>-1\<close>; an outcome that is neither
  of the two kinds of exception passes through unchanged; and in every case the world
  afterwards is the one a single run of the wrapped call left, with at most one logged
  message more, so the call is never run again.
\<close>
theorem only_request_errors_are_caught:
  assumes "subcommand w = (outcome, w1)"
  shows "(\<forall>s. outcome = Inl (RequestException s) \<longrightarrow>
            handle_exceptions env subcommand w =
              (Inl (Exit (- 1)), w1\<lparr>log := log w1 @ [''API error: '' @ s]\<rparr>))
       \<and> (\<forall>args body detail.
            outcome = Inl (RequestFailure args) \<and> 1 < length args \<and> args ! 1 = PDict body
            \<and> map_of body ''detail'' = Some detail \<longrightarrow>
            handle_exceptions env subcommand w =
              (Inl (Exit (- 1)), w1\<lparr>log := log w1 @ [''API error: '' @ format_value env detail]\<rparr>))
       \<and> ((\<forall>args. outcome \<noteq> Inl (RequestFailure args)) \<and> (\<forall>s. outcome \<noteq> Inl (RequestException s)) \<longrightarrow>
            handle_exceptions env subcommand w = (outcome, w1))
       \<and> (\<exists>msgs. length msgs \<le> 1
            \<and> snd (handle_exceptions env subcommand w) = w1\<lparr>log := log w1 @ msgs\<rparr>)"
proof -
  have a: "handle_exceptions env subcommand w =
      (Inl (Exit (- 1)), w1\<lparr>log := log w1 @ [''API error: '' @ s]\<rparr>)"
    if "outcome = Inl (RequestException s)" for s
    using assms that by (simp add: handle_exceptions_def LOGGER_error_def)
  have b: "handle_exceptions env subcommand w =
      (Inl (Exit (- 1)), w1\<lparr>log := log w1 @ [''API error: '' @ format_value env detail]\<rparr>)"
    if "outcome = Inl (RequestFailure args) \<and> 1 < length args \<and> args ! 1 = PDict body
        \<and> map_of body ''detail'' = Some detail" for args body detail
    using assms that by (simp add: handle_exceptions_def LOGGER_error_def tuple_getitem_def)
  have c: "handle_exceptions env subcommand w = (outcome, w1)"
    if "(\<forall>args. outcome \<noteq> Inl (RequestFailure args)) \<and> (\<forall>s. outcome \<noteq> Inl (RequestException s))"
  proof (cases outcome)
    case (Inr r)
    then show ?thesis using assms by (simp add: handle_exceptions_def)
  next
    case (Inl e)
    then show ?thesis using assms that by (cases e) (simp_all add: handle_exceptions_def)
  qed
  have o: "\<exists>msgs. length msgs \<le> 1 \<and> snd (on_exception env e w1) = w1\<lparr>log := log w1 @ msgs\<rparr>" for e
  proof (cases "snd (on_exception env e w1) = w1")
    case True
    then have "length ([]::string list) \<le> 1 \<and> snd (on_exception env e w1) = w1\<lparr>log := log w1 @ []\<rparr>"
      by simp
    then show ?thesis by blast
  next
    case False
    then obtain m where "snd (on_exception env e w1) = w1\<lparr>log := log w1 @ [m]\<rparr>"
      by (cases e) (auto simp: LOGGER_error_def split: sum.splits)
    then have "length [m] \<le> 1 \<and> snd (on_exception env e w1) = w1\<lparr>log := log w1 @ [m]\<rparr>"
      by simp
    then show ?thesis by blast
  qed
  have d: "\<exists>msgs. length msgs \<le> 1
            \<and> snd (handle_exceptions env subcommand w) = w1\<lparr>log := log w1 @ msgs\<rparr>"
  proof (cases outcome)
    case (Inr r)
    then have "length ([]::string list) \<le> 1
        \<and> snd (handle_exceptions env subcommand w) = w1\<lparr>log := log w1 @ []\<rparr>"
      using assms by (simp add: handle_exceptions_def)
    then show ?thesis by blast
  next
    case (Inl e)
    then show ?thesis using assms o [of e] by (simp add: handle_exceptions_def)
  qed
  show ?thesis using a b c d by blast
qed

theorem only_request_errors_are_caught_witness:
  "handle_exceptions sample_env
     (remote_call (Inl (OtherError ''ValueError'')) (sample_ctx ''enrich'' None None ''txt'') (Sublime PNone))
     sample_world =
     (Inl (OtherError ''ValueError''), sample_world\<lparr>requests := 1\<rparr>)
   \<and> handle_exceptions sample_env
     (remote_call (Inl (RequestException ''timed out'')) (sample_ctx ''enrich'' None None ''txt'') (Sublime PNone))
     sample_world =
     (Inl (Exit (- 1)), sample_world\<lparr>log := [''API error: timed out''], requests := 1\<rparr>)"
proof -
  let ?ctx = "sample_ctx ''enrich'' None None ''txt''"
  have 1: "remote_call (Inl (OtherError ''ValueError'')) ?ctx (Sublime PNone) sample_world
      = (Inl (OtherError ''ValueError''), sample_world\<lparr>requests := 1\<rparr>)"
    by (simp add: remote_call_def sample_world_def)
  have 2: "remote_call (Inl (RequestException ''timed out'')) ?ctx (Sublime PNone) sample_world
      = (Inl (RequestException ''timed out''), sample_world\<lparr>requests := 1\<rparr>)"
    by (simp add: remote_call_def sample_world_def)
  from only_request_errors_are_caught [where subcommand = "remote_call (Inl (OtherError ''ValueError'')) ?ctx (Sublime PNone)"
      and env = sample_env, OF 1]
  have a: "handle_exceptions sample_env
     (remote_call (Inl (OtherError ''ValueError'')) ?ctx (Sublime PNone)) sample_world =
     (Inl (OtherError ''ValueError''), sample_world\<lparr>requests := 1\<rparr>)"
    by simp
  from only_request_errors_are_caught [where subcommand = "remote_call (Inl (RequestException ''timed out'')) ?ctx (Sublime PNone)"
      and env = sample_env, OF 2]
  have b: "handle_exceptions sample_env
     (remote_call (Inl (RequestException ''timed out'')) ?ctx (Sublime PNone)) sample_world =
     (Inl (Exit (- 1)), sample_world\<lparr>log := [''API error: timed out''], requests := 1\<rparr>)"
    by (simp add: sample_world_def)
  show ?thesis using a b by simp
qed

text \<open>
  Claim C9. For an API error, the handler raises \<^verbatim>\<open>IndexError\<close> when the exception has
  fewer than two arguments and \<^verbatim>\<open>KeyError\<close> when the second one is a dictionary without
  the key \<^verbatim>\<open>detail\<close>, and logs nothing then; it logs and exits with code \<open>-1\<close>
  exactly when the second argument is a dictionary that has the key.
\<close>
theorem api_error_handler_needs_detail:
  assumes "subcommand w = (Inl (RequestFailure args), w1)"
  shows "(length args < 2 \<longrightarrow> handle_exceptions env subcommand w = (Inl IndexError, w1))
       \<and> (\<forall>body. 2 \<le> length args \<and> args ! 1 = PDict body \<and> map_of body ''detail'' = None \<longrightarrow>
            handle_exceptions env subcommand w = (Inl (KeyError ''detail''), w1))
       \<and> (fst (handle_exceptions env subcommand w) = Inl (Exit (- 1)) \<longleftrightarrow>
            2 \<le> length args \<and> (\<exists>body detail. args ! 1 = PDict body \<and> map_of body ''detail'' = Some detail))
       \<and> (log (snd (handle_exceptions env subcommand w)) \<noteq> log w1 \<longleftrightarrow>
            2 \<le> length args \<and> (\<exists>body detail. args ! 1 = PDict body \<and> map_of body ''detail'' = Some detail))"
proof -
  have h: "handle_exceptions env subcommand w = on_exception env (RequestFailure args) w1"
    using assms by (simp add: handle_exceptions_def)
  show ?thesis
  proof (cases "length args < 2")
    case True
    then show ?thesis by (simp add: h tuple_getitem_def)
  next
    case False
    then have t: "tuple_getitem args (Suc 0) = Inr (args ! Suc 0)" by (simp add: tuple_getitem_def)
    show ?thesis
    proof (cases "args ! Suc 0")
      case (PDict body)
      then show ?thesis using False
        by (cases "map_of body ''detail''") (simp_all add: h t LOGGER_error_def)
    qed (use False in \<open>simp_all add: h t\<close>)
  qed
qed

theorem api_error_handler_needs_detail_witness:
  "handle_exceptions sample_env
     (remote_call (Inl (RequestFailure [PInt 500])) (sample_ctx ''analyze'' None None ''txt'') (Sublime PNone))
     sample_world = (Inl IndexError, sample_world\<lparr>requests := 1\<rparr>)
   \<and> handle_exceptions sample_env
     (remote_call (Inl (RequestFailure [PInt 500, PDict [(''message'', PStr ''bad file'')]]))
        (sample_ctx ''analyze'' None None ''txt'') (Sublime PNone))
     sample_world = (Inl (KeyError ''detail''), sample_world\<lparr>requests := 1\<rparr>)"
proof -
  let ?ctx = "sample_ctx ''analyze'' None None ''txt''"
  let ?args = "[PInt 500, PDict [(''message'', PStr ''bad file'')]]"
  have 1: "remote_call (Inl (RequestFailure [PInt 500])) ?ctx (Sublime PNone) sample_world
      = (Inl (RequestFailure [PInt 500]), sample_world\<lparr>requests := 1\<rparr>)"
    by (simp add: remote_call_def sample_world_def)
  have 2: "remote_call (Inl (RequestFailure ?args)) ?ctx (Sublime PNone) sample_world
      = (Inl (RequestFailure ?args), sample_world\<lparr>requests := 1\<rparr>)"
    by (simp add: remote_call_def sample_world_def)
  from api_error_handler_needs_detail [where subcommand = "remote_call (Inl (RequestFailure [PInt 500])) ?ctx (Sublime PNone)"
      and env = sample_env, OF 1]
  have a: "handle_exceptions sample_env (remote_call (Inl (RequestFailure [PInt 500])) ?ctx (Sublime PNone))
     sample_world = (Inl IndexError, sample_world\<lparr>requests := 1\<rparr>)"
    by simp
  from api_error_handler_needs_detail [where subcommand = "remote_call (Inl (RequestFailure ?args)) ?ctx (Sublime PNone)"
      and env = sample_env, OF 2]
  have b: "handle_exceptions sample_env (remote_call (Inl (RequestFailure ?args)) ?ctx (Sublime PNone))
     sample_world = (Inl (KeyError ''detail''), sample_world\<lparr>requests := 1\<rparr>)"
    by simp
  show ?thesis using a b by simp
qed


section \<open>The text written to the output target\<close>

lemma save_mdm_echo:
  "FORMATTERS env ''json'' = Some (Callable json) \<Longrightarrow>
   save_mdm env ctx result w =
     (Inr (), echo (strip (json result False) [nl])
        (Some (OpenFile (output_file_name (name (input_file (params ctx))))))
        (w\<lparr>files := (files w)(output_file_name (name (input_file (params ctx))) \<mapsto> [])\<rparr>))"
proof -
  assume a: "FORMATTERS env ''json'' = Some (Callable json)"
  have ne: "output_file_name (name (input_file (params ctx))) \<noteq> ''-''"
    by (simp add: output_file_name_def)
  show ?thesis using a ne by (simp add: save_mdm_def open_file_def Let_def)
qed

text \<open>
  Claim C7 as stated fails where the formatter's text starts with a newline: the sample
  text formatter returns a newline, \<open>txt ok\<close> and a newline; \<^verbatim>\<open>analyze\<close> prints
  \<open>txt ok\<close>, but stripping the trailing newlines alone leaves the leading one.
\<close>
theorem trailing_strip_only_counterexample:
  "analyze_command sample_env (remote_call (Inr (PStr ''ok'')))
     (sample_ctx ''analyze'' (Some ''key'') None ''txt'') sample_world =
     (Inr (),
      \<lparr>stdout = ''txt ok'' @ [nl], files = Map.empty, log = [],
       clients = [Sublime (PStr ''key'')], requests = 1\<rparr>)
   \<and> select_formatter sample_env (sample_ctx ''analyze'' (Some ''key'') None ''txt'') = Inr sample_txt
   \<and> rstrip (sample_txt (PStr ''ok'') False) [nl] = [nl] @ ''txt ok''
   \<and> ''txt ok'' \<noteq> rstrip (sample_txt (PStr ''ok'') False) [nl]
   \<and> ''txt ok'' @ [nl] \<noteq> rstrip (sample_txt (PStr ''ok'') False) [nl]
   \<and> ''txt ok'' @ [nl] \<noteq> rstrip (sample_txt (PStr ''ok'') False) [nl] @ [nl]"
proof -
  have r: "rstrip (sample_txt (PStr ''ok'') False) [nl] = [nl] @ ''txt ok''"
    by (simp add: rstrip_def sample_txt_def nl_def)
  have s: "strip (sample_txt (PStr ''ok'') False) [nl] = ''txt ok''"
    by (simp add: strip_def sample_txt_def nl_def)
  have f: "select_formatter sample_env (sample_ctx ''analyze'' (Some ''key'') None ''txt'') = Inr sample_txt"
    by (simp add: select_formatter_def sample_env_def sample_ctx_def)
  let ?ctx = "sample_ctx ''analyze'' (Some ''key'') None ''txt''"
  let ?w1 = "sample_world\<lparr>clients := [Sublime (PStr ''key'')], requests := 1\<rparr>"
  have k: "resolved_key sample_env ?ctx = Some (PStr ''key'')"
    by (simp add: resolved_key_def sample_ctx_def)
  have "remote_call (Inr (PStr ''ok'')) ?ctx (Sublime (PStr ''key''))
      (sample_world\<lparr>clients := clients sample_world @ [Sublime (PStr ''key'')]\<rparr>)
      = (Inr (PStr ''ok''), ?w1)"
    by (simp add: remote_call_def sample_world_def)
  then have h: "handle_exceptions sample_env (remote_call (Inr (PStr ''ok'')) ?ctx (Sublime (PStr ''key'')))
      (sample_world\<lparr>clients := clients sample_world @ [Sublime (PStr ''key'')]\<rparr>)
      = (Inr (PStr ''ok''), ?w1)"
    by (rule handle_exceptions_success)
  have n: "command_name ?ctx = ''analyze''" "output_file (params ?ctx) = None"
    by (simp_all add: sample_ctx_def)
  have "analyze_command sample_env (remote_call (Inr (PStr ''ok''))) ?ctx sample_world =
      (Inr (), echo ''txt ok'' None ?w1)"
    using command_resolved(2) [OF k, of "remote_call (Inr (PStr ''ok''))" sample_world]
      echo_result_success [of "handle_exceptions sample_env
        (remote_call (Inr (PStr ''ok'')) ?ctx (Sublime (PStr ''key'')))", OF h f]
    unfolding n s by simp
  then have c: "analyze_command sample_env (remote_call (Inr (PStr ''ok''))) ?ctx sample_world =
     (Inr (),
      \<lparr>stdout = ''txt ok'' @ [nl], files = Map.empty, log = [],
       clients = [Sublime (PStr ''key'')], requests = 1\<rparr>)"
    by (simp add: echo_def sample_world_def)
  show ?thesis using r f c by (simp add: nl_def)
qed

text \<open>
  Claim C7, amended. On a successful run of either subcommand, the message echoed to the
  output target is the formatter's text with the newlines at both ends stripped, and so
  is the JSON copy \<^verbatim>\<open>enrich\<close> saves: what is stripped is newlines only, the message
  neither starts nor ends with one, and for a text that does not start with a newline
  this is the text without its trailing newlines.
\<close>
theorem output_is_stripped_at_both_ends:
  assumes "resolved_key env ctx = Some key"
    and "subcommand ctx (Sublime key) (w\<lparr>clients := clients w @ [Sublime key]\<rparr>) = (Inr result, w1)"
    and "select_formatter env ctx = Inr formatter"
  shows "enrich_command env subcommand ctx w =
           (if command_name ctx = ''enrich'' \<and> output_file (params ctx) = None
            then save_mdm env ctx result (echo (strip (formatter result False) [nl]) None w1)
            else (Inr (), echo (strip (formatter result False) [nl]) (output_file (params ctx)) w1))
       \<and> analyze_command env subcommand ctx w = enrich_command env subcommand ctx w
       \<and> (\<forall>json w2. FORMATTERS env ''json'' = Some (Callable json) \<longrightarrow>
            save_mdm env ctx result w2 =
              (Inr (), echo (strip (json result False) [nl])
                 (Some (OpenFile (output_file_name (name (input_file (params ctx))))))
                 (w2\<lparr>files := (files w2)(output_file_name (name (input_file (params ctx))) \<mapsto> [])\<rparr>)))
       \<and> (\<forall>s. (\<exists>a b. s = a @ strip s [nl] @ b \<and> set a \<subseteq> {nl} \<and> set b \<subseteq> {nl})
              \<and> (strip s [nl] \<noteq> [] \<longrightarrow> hd (strip s [nl]) \<noteq> nl \<and> last (strip s [nl]) \<noteq> nl)
              \<and> (s = [] \<or> hd s \<noteq> nl \<longrightarrow> strip s [nl] = rstrip s [nl]))"
proof -
  have h: "handle_exceptions env (subcommand ctx (Sublime key))
             (w\<lparr>clients := clients w @ [Sublime key]\<rparr>) = (Inr result, w1)"
    using assms(2) by (rule handle_exceptions_success)
  have 1: "enrich_command env subcommand ctx w =
           (if command_name ctx = ''enrich'' \<and> output_file (params ctx) = None
            then save_mdm env ctx result (echo (strip (formatter result False) [nl]) None w1)
            else (Inr (), echo (strip (formatter result False) [nl]) (output_file (params ctx)) w1))"
    using command_resolved(1) [OF assms(1)]
      echo_result_success [of "handle_exceptions env (subcommand ctx (Sublime key))", OF h assms(3)]
    by simp
  have 2: "analyze_command env subcommand ctx w = enrich_command env subcommand ctx w"
    by (simp add: analyze_command_def enrich_command_def)
  have 3: "(\<exists>a b. s = a @ strip s [nl] @ b \<and> set a \<subseteq> {nl} \<and> set b \<subseteq> {nl})
          \<and> (strip s [nl] \<noteq> [] \<longrightarrow> hd (strip s [nl]) \<noteq> nl \<and> last (strip s [nl]) \<noteq> nl)
          \<and> (s = [] \<or> hd s \<noteq> nl \<longrightarrow> strip s [nl] = rstrip s [nl])" for s
    using strip_decomp [of s "[nl]"] strip_ends [of s "[nl]"] strip_eq_rstrip [of s "[nl]"]
    by simp
  show ?thesis using 1 2 3 save_mdm_echo [of env _ ctx result] by simp
qed

theorem output_is_stripped_at_both_ends_witness:
  "analyze_command sample_env (remote_call (Inr (PStr ''ok'')))
     (sample_ctx ''analyze'' (Some ''key'') (Some Stdout) ''txt'') sample_world =
     (Inr (),
      \<lparr>stdout = ''txt ok'' @ [nl], files = Map.empty, log = [],
       clients = [Sublime (PStr ''key'')], requests = 1\<rparr>)"
proof -
  let ?ctx = "sample_ctx ''analyze'' (Some ''key'') (Some Stdout) ''txt''"
  let ?w1 = "sample_world\<lparr>clients := [Sublime (PStr ''key'')], requests := 1\<rparr>"
  have 1: "resolved_key sample_env ?ctx = Some (PStr ''key'')"
    by (simp add: resolved_key_def sample_ctx_def)
  have 2: "remote_call (Inr (PStr ''ok'')) ?ctx (Sublime (PStr ''key''))
      (sample_world\<lparr>clients := clients sample_world @ [Sublime (PStr ''key'')]\<rparr>)
      = (Inr (PStr ''ok''), ?w1)"
    by (simp add: remote_call_def sample_world_def)
  have 3: "select_formatter sample_env ?ctx = Inr sample_txt"
    by (simp add: select_formatter_def sample_env_def sample_ctx_def)
  have s: "strip (sample_txt (PStr ''ok'') False) [nl] = ''txt ok''"
    by (simp add: strip_def sample_txt_def nl_def)
  have c: "command_name ?ctx = ''analyze''" "output_file (params ?ctx) = Some Stdout"
    by (simp_all add: sample_ctx_def)
  from output_is_stripped_at_both_ends [where subcommand = "remote_call (Inr (PStr ''ok''))", OF 1 2 3]
  have "analyze_command sample_env (remote_call (Inr (PStr ''ok''))) ?ctx sample_world =
      (Inr (), echo ''txt ok'' (Some Stdout) ?w1)"
    unfolding c s by simp
  then show ?thesis by (simp add: echo_def sample_world_def)
qed

section \<open>Facts about JSON text\<close>

lemma hexval_hexdigit: "n < 16 \<Longrightarrow> hexval (hexdigit n) = Some n"
  by (auto simp: hexval_def hexdigit_def Let_def)

lemma hexval_zero: "hexval CHR ''0'' = Some 0"
  by (simp add: hexval_def)

lemma parse_chars_escape:
  "parse_chars (concat (map escape_char s) @ dq # rest) = Some (s, rest)"
proof (induction s)
  case Nil
  then show ?case by simp
next
  case (Cons c s)
  let ?k = "of_char c :: nat"
  consider "c = dq" | "c = bs" | "c \<noteq> dq" "c \<noteq> bs" "?k < 32" | "c \<noteq> dq" "c \<noteq> bs" "\<not> ?k < 32"
    by blast
  then show ?case
  proof cases
    case 1
    then show ?thesis using Cons by (simp add: escape_char_def unescape_def dq_def bs_def)
  next
    case 2
    then show ?thesis using Cons by (simp add: escape_char_def unescape_def dq_def bs_def)
  next
    case 3
    have h1: "hexval (hexdigit (?k div 16)) = Some (?k div 16)"
      using 3 by (intro hexval_hexdigit) simp
    have h2: "hexval (hexdigit (?k mod 16)) = Some (?k mod 16)"
      by (intro hexval_hexdigit) simp
    have c: "char_of (?k div 16 * 16 + ?k mod 16) = c" by simp
    have "escape_char c = [bs, CHR ''u'', CHR ''0'', CHR ''0'', hexdigit (?k div 16), hexdigit (?k mod 16)]"
      using 3 by (simp add: escape_char_def)
    then show ?thesis using Cons 3 h1 h2 c by (simp add: hexval_zero bs_def dq_def)
  next
    case 4
    then show ?thesis using Cons by (simp add: escape_char_def)
  qed
qed

lemma is_digit_char_of: "(n::nat) < 10 \<Longrightarrow> is_digit (char_of (48 + n))"
  by (simp add: is_digit_def)

lemma digits_nonempty: "digits n \<noteq> []"
  by (subst digits.simps) simp

lemma digits_all: "c \<in> set (digits n) \<Longrightarrow> is_digit c"
proof (induction n arbitrary: c rule: digits.induct)
  case (1 n)
  show ?case
  proof (cases "n < 10")
    case True
    then show ?thesis using "1.prems" by (subst (asm) digits.simps) (simp add: is_digit_char_of)
  next
    case False
    have "c \<in> set (digits (n div 10)) \<or> c = char_of (48 + n mod 10)"
      using "1.prems" False by (subst (asm) digits.simps) auto
    then show ?thesis using "1.IH" [OF False] by (auto simp: is_digit_char_of)
  qed
qed

lemma digits_value_snoc:
  "digits_value (ds @ [c]) = 10 * digits_value ds + ((of_char c :: nat) - 48)"
  by (simp add: digits_value_def)

lemma digits_value_digits: "digits_value (digits n) = n"
proof (induction n rule: digits.induct)
  case (1 n)
  show ?case
  proof (cases "n < 10")
    case True
    then show ?thesis by (subst digits.simps) (simp add: digits_value_def)
  next
    case False
    have "digits_value (digits n) = 10 * digits_value (digits (n div 10)) + n mod 10"
      using False by (subst digits.simps) (simp add: digits_value_snoc)
    then show ?thesis using "1.IH" [OF False] by simp
  qed
qed

lemma takeWhile_digits:
  assumes "rest = [] \<or> \<not> is_digit (hd rest)"
  shows "takeWhile is_digit (digits n @ rest) = digits n"
    and "dropWhile is_digit (digits n @ rest) = rest"
proof -
  have a: "\<forall>c \<in> set (digits n). is_digit c" by (simp add: digits_all)
  have r: "takeWhile is_digit rest = []" "dropWhile is_digit rest = rest"
    using assms by (cases rest; simp)+
  show "takeWhile is_digit (digits n @ rest) = digits n"
    using a r by (simp add: takeWhile_append2)
  show "dropWhile is_digit (digits n @ rest) = rest"
    using a r by (simp add: dropWhile_append2)
qed

lemma digit_not_minus: "is_digit c \<Longrightarrow> c \<noteq> CHR ''-''"
  by (auto simp: is_digit_def)

lemma digits_hd: "\<exists>c cs. digits n = c # cs \<and> is_digit c"
  using digits_nonempty [of n] digits_all [of _ n] by (cases "digits n") auto

lemma parse_int_json_int:
  assumes "rest = [] \<or> \<not> is_digit (hd rest)"
  shows "parse_int (json_int i @ rest) = Some (i, rest)"
proof (cases "i < 0")
  case True
  then show ?thesis
    using takeWhile_digits [OF assms, of "nat (- i)"] digits_nonempty [of "nat (- i)"]
    by (simp add: parse_int_def json_int_def digits_value_digits)
next
  case False
  obtain c cs where d: "digits (nat i) = c # cs" "is_digit c" using digits_hd by blast
  then have "c \<noteq> CHR ''-''" by (simp add: digit_not_minus)
  then have "parse_int (digits (nat i) @ rest) =
      (let ds = takeWhile is_digit (digits (nat i) @ rest);
           r = dropWhile is_digit (digits (nat i) @ rest)
       in if ds = [] then None else Some (int (digits_value ds), r))"
    unfolding d parse_int_def by (simp add: Let_def)
  then show ?thesis
    using False takeWhile_digits [OF assms, of "nat i"] digits_nonempty [of "nat i"]
    by (simp add: json_int_def digits_value_digits)
qed

lemma json_int_hd: "\<exists>c cs. json_int i = c # cs \<and> (c = CHR ''-'' \<or> is_digit c)"
  using digits_hd [of "nat i"] by (auto simp: json_int_def)

lemma int_start_other:
  "c = CHR ''-'' \<or> is_digit c \<Longrightarrow>
   \<not> is_ws c \<and> c \<noteq> CHR ''n'' \<and> c \<noteq> CHR ''t'' \<and> c \<noteq> CHR ''f'' \<and> c \<noteq> dq
   \<and> c \<noteq> CHR ''['' \<and> c \<noteq> CHR ''{'' \<and> c \<noteq> CHR '']'' \<and> c \<noteq> CHR ''}''"
  by (auto simp: is_digit_def is_ws_def dq_def)

text \<open>The first character of a value.\<close>

lemma json_dumps_hd:
  "\<exists>c cs. json_dumps v = c # cs \<and> \<not> is_ws c \<and> c \<noteq> CHR '']'' \<and> c \<noteq> CHR ''}''"
proof (cases v)
  case PNone
  then show ?thesis by (simp add: is_ws_def)
next
  case (PBool b)
  then show ?thesis by (simp add: is_ws_def)
next
  case (PInt i)
  obtain c cs where c: "json_int i = c # cs" "c = CHR ''-'' \<or> is_digit c"
    using json_int_hd by blast
  have "\<not> is_ws c \<and> c \<noteq> CHR '']'' \<and> c \<noteq> CHR ''}''"
    using int_start_other [OF c(2)] by blast
  then show ?thesis using PInt c(1) by simp
next
  case (PStr s)
  then show ?thesis by (simp add: is_ws_def json_string_def dq_def)
next
  case (PList vs)
  then show ?thesis by (simp add: is_ws_def)
next
  case (PDict kvs)
  then show ?thesis by (simp add: is_ws_def)
qed

lemma skip_ws_Cons: "\<not> is_ws c \<Longrightarrow> skip_ws (c # cs) = c # cs"
  by (simp add: skip_ws_def)


lemma parse_value_null: "parse_value (Suc n) (''null'' @ rest) = Some (PNone, rest)"
  by (simp add: skip_ws_def is_ws_def)

lemma parse_value_true: "parse_value (Suc n) (''true'' @ rest) = Some (PBool True, rest)"
  by (simp add: skip_ws_def is_ws_def)

lemma parse_value_false: "parse_value (Suc n) (''false'' @ rest) = Some (PBool False, rest)"
  by (simp add: skip_ws_def is_ws_def)

lemma parse_value_string: "parse_value (Suc n) (json_string s @ rest) = Some (PStr s, rest)"
proof -
  have w: "skip_ws (dq # concat (map escape_char s) @ dq # rest) = dq # concat (map escape_char s) @ dq # rest"
    by (rule skip_ws_Cons) (simp add: is_ws_def dq_def)
  have d: "dq \<noteq> CHR ''n''" "dq \<noteq> CHR ''t''" "dq \<noteq> CHR ''f''" by (simp_all add: dq_def)
  show ?thesis by (simp add: json_string_def w d parse_chars_escape)
qed

lemma parse_value_int:
  assumes "rest = [] \<or> \<not> is_digit (hd rest)"
  shows "parse_value (Suc n) (json_int i @ rest) = Some (PInt i, rest)"
proof -
  obtain c cs where c: "json_int i = c # cs" "c = CHR ''-'' \<or> is_digit c"
    using json_int_hd by blast
  note o = int_start_other [OF c(2)]
  have w: "skip_ws (c # cs @ rest) = c # cs @ rest" using o by (intro skip_ws_Cons) blast
  have "parse_value (Suc n) (c # cs @ rest) = map_option (\<lambda>(i, r). (PInt i, r)) (parse_int (c # cs @ rest))"
    using o by (simp add: w)
  also have "parse_int (c # cs @ rest) = Some (i, rest)"
    using parse_int_json_int [OF assms, of i] c(1) by simp
  finally show ?thesis using c(1) by simp
qed

lemma parse_value_list_empty: "parse_value (Suc n) (''[]'' @ rest) = Some (PList [], rest)"
  by (simp add: skip_ws_def is_ws_def dq_def)

lemma parse_value_dict_empty: "parse_value (Suc n) (''{}'' @ rest) = Some (PDict [], rest)"
  by (simp add: skip_ws_def is_ws_def dq_def)

lemma parse_value_list:
  assumes "\<not> is_ws c" and "c \<noteq> CHR '']''" and "parse_items n (c # cs) = Some (vs, rest)"
  shows "parse_value (Suc n) (CHR ''['' # c # cs) = Some (PList vs, rest)"
  using assms by (simp add: skip_ws_def is_ws_def dq_def)

lemma parse_value_dict:
  assumes "\<not> is_ws c" and "c \<noteq> CHR ''}''" and "parse_members n (c # cs) = Some (kvs, rest)"
  shows "parse_value (Suc n) (CHR ''{'' # c # cs) = Some (PDict kvs, rest)"
  using assms by (simp add: skip_ws_def is_ws_def dq_def)

lemma parse_items_last:
  "parse_value n s = Some (v, CHR '']'' # rest) \<Longrightarrow> parse_items (Suc n) s = Some ([v], rest)"
  by (simp add: skip_ws_def is_ws_def)

lemma parse_items_more:
  "parse_value n s = Some (v, CHR '','' # r) \<Longrightarrow> parse_items n r = Some (vs, rest) \<Longrightarrow>
   parse_items (Suc n) s = Some (v # vs, rest)"
  by (simp add: skip_ws_def is_ws_def)

lemma parse_members_key:
  "parse_members (Suc n) (json_string k @ CHR '':'' # s) =
     (case parse_value n s of
        None \<Rightarrow> None
      | Some (v, r2) \<Rightarrow>
          (case skip_ws r2 of
             [] \<Rightarrow> None
           | e # r3 \<Rightarrow>
               if e = CHR ''}'' then Some ([(k, v)], r3)
               else if e = CHR '','' then
                 map_option (\<lambda>(kvs, r'). ((k, v) # kvs, r')) (parse_members n r3)
               else None))"
proof -
  have w: "skip_ws (dq # concat (map escape_char k) @ dq # CHR '':'' # s)
      = dq # concat (map escape_char k) @ dq # CHR '':'' # s"
    by (rule skip_ws_Cons) (simp add: is_ws_def dq_def)
  have c: "skip_ws (CHR '':'' # s) = CHR '':'' # s"
    by (rule skip_ws_Cons) (simp add: is_ws_def)
  show ?thesis
    by (simp add: json_string_def w parse_chars_escape [of k "CHR '':'' # s"] c)
qed

lemma parse_members_last:
  "parse_value n s = Some (v, CHR ''}'' # rest) \<Longrightarrow>
   parse_members (Suc n) (json_string k @ CHR '':'' # s) = Some ([(k, v)], rest)"
  by (simp only: parse_members_key) (simp add: skip_ws_def is_ws_def)

lemma parse_members_more:
  "parse_value n s = Some (v, CHR '','' # r) \<Longrightarrow> parse_members n r = Some (kvs, rest) \<Longrightarrow>
   parse_members (Suc n) (json_string k @ CHR '':'' # s) = Some ((k, v) # kvs, rest)"
  by (simp only: parse_members_key) (simp add: skip_ws_def is_ws_def)

lemma json_items_hd:
  "vs \<noteq> [] \<Longrightarrow> \<exists>c cs. json_items vs = c # cs \<and> \<not> is_ws c \<and> c \<noteq> CHR '']''"
proof (cases vs)
  case Nil
  assume "vs \<noteq> []"
  then show ?thesis using Nil by simp
next
  case (Cons v vs')
  obtain c cs where "json_dumps v = c # cs" "\<not> is_ws c" "c \<noteq> CHR '']''"
    using json_dumps_hd by blast
  then show ?thesis using Cons by simp
qed

lemma json_members_hd:
  "kvs \<noteq> [] \<Longrightarrow> \<exists>cs. json_members kvs = dq # cs"
  by (cases kvs) (simp_all add: json_string_def)

lemma json_roundtrip:
  "(\<forall>n rest. length (json_dumps v) \<le> n \<longrightarrow> (rest = [] \<or> \<not> is_digit (hd rest)) \<longrightarrow>
      parse_value n (json_dumps v @ rest) = Some (v, rest))"
  "(vs \<noteq> [] \<longrightarrow> (\<forall>n rest. length (json_items vs) < n \<longrightarrow>
      parse_items n (json_items vs @ CHR '']'' # rest) = Some (vs, rest)))"
  "(kvs \<noteq> [] \<longrightarrow> (\<forall>n rest. length (json_members kvs) < n \<longrightarrow>
      parse_members n (json_members kvs @ CHR ''}'' # rest) = Some (kvs, rest)))"
proof (induction v and vs and kvs rule: json_dumps_json_items_json_members.induct)
  case 1
  show ?case
  proof (intro allI impI)
    fix n rest assume "length (json_dumps PNone) \<le> n"
    then obtain m where "n = Suc m" by (cases n) auto
    then show "parse_value n (json_dumps PNone @ rest) = Some (PNone, rest)"
      using parse_value_null [of m rest] by simp
  qed
next
  case (2 b)
  show ?case
  proof (intro allI impI)
    fix n rest assume "length (json_dumps (PBool b)) \<le> n"
    then obtain m where "n = Suc m" by (cases n) (auto split: if_splits)
    then show "parse_value n (json_dumps (PBool b) @ rest) = Some (PBool b, rest)"
      using parse_value_true [of m rest] parse_value_false [of m rest] by simp
  qed
next
  case (3 i)
  show ?case
  proof (intro allI impI)
    fix n rest
    assume "length (json_dumps (PInt i)) \<le> n" and r: "rest = [] \<or> \<not> is_digit (hd rest)"
    moreover have "json_int i \<noteq> []" using json_int_hd [of i] by auto
    ultimately obtain m where "n = Suc m" by (cases n) auto
    then show "parse_value n (json_dumps (PInt i) @ rest) = Some (PInt i, rest)"
      using parse_value_int [OF r, of m i] by simp
  qed
next
  case (4 s)
  show ?case
  proof (intro allI impI)
    fix n rest assume "length (json_dumps (PStr s)) \<le> n"
    then obtain m where "n = Suc m" by (cases n) (auto simp: json_string_def)
    then show "parse_value n (json_dumps (PStr s) @ rest) = Some (PStr s, rest)"
      using parse_value_string [of m s rest] by simp
  qed
next
  case (5 vs)
  show ?case
  proof (intro allI impI)
    fix n rest assume len: "length (json_dumps (PList vs)) \<le> n"
    then obtain m where n: "n = Suc m" by (cases n) auto
    show "parse_value n (json_dumps (PList vs) @ rest) = Some (PList vs, rest)"
    proof (cases "vs = []")
      case True
      then show ?thesis using n parse_value_list_empty [of m rest] by simp
    next
      case False
      obtain c cs where c: "json_items vs = c # cs" "\<not> is_ws c" "c \<noteq> CHR '']''"
        using json_items_hd [OF False] by blast
      have "length (json_items vs) < m" using len n by simp
      then have "parse_items m (json_items vs @ CHR '']'' # rest) = Some (vs, rest)"
        using 5 False by blast
      then have "parse_items m (c # cs @ CHR '']'' # rest) = Some (vs, rest)"
        using c(1) by simp
      from parse_value_list [OF c(2) c(3) this]
      show ?thesis using n c(1) by simp
    qed
  qed
next
  case (6 kvs)
  show ?case
  proof (intro allI impI)
    fix n rest assume len: "length (json_dumps (PDict kvs)) \<le> n"
    then obtain m where n: "n = Suc m" by (cases n) auto
    show "parse_value n (json_dumps (PDict kvs) @ rest) = Some (PDict kvs, rest)"
    proof (cases "kvs = []")
      case True
      then show ?thesis using n parse_value_dict_empty [of m rest] by simp
    next
      case False
      obtain cs where c: "json_members kvs = dq # cs"
        using json_members_hd [OF False] by blast
      have d: "\<not> is_ws dq" "dq \<noteq> CHR ''}''" by (simp_all add: is_ws_def dq_def)
      have "length (json_members kvs) < m" using len n by simp
      then have "parse_members m (json_members kvs @ CHR ''}'' # rest) = Some (kvs, rest)"
        using 6 False by blast
      then have "parse_members m (dq # cs @ CHR ''}'' # rest) = Some (kvs, rest)"
        using c by simp
      from parse_value_dict [OF d this]
      show ?thesis using n c by simp
    qed
  qed
next
  case 7
  show ?case by simp
next
  case (8 v vs)
  show ?case
  proof (intro allI impI)
    fix n rest assume len: "length (json_items (v # vs)) < n"
    then obtain m where n: "n = Suc m" by (cases n) auto
    show "parse_items n (json_items (v # vs) @ CHR '']'' # rest) = Some (v # vs, rest)"
    proof (cases "vs = []")
      case True
      have "length (json_dumps v) \<le> m" using len n True by simp
      then have "parse_value m (json_dumps v @ CHR '']'' # rest) = Some (v, CHR '']'' # rest)"
        using "8.IH"(1) by (simp add: is_digit_def)
      from parse_items_last [OF this] show ?thesis using n True by simp
    next
      case False
      have "length (json_dumps v) \<le> m" using len n False by simp
      then have v: "parse_value m (json_dumps v @ CHR '','' # json_items vs @ CHR '']'' # rest)
          = Some (v, CHR '','' # json_items vs @ CHR '']'' # rest)"
        using "8.IH"(1) by (simp add: is_digit_def)
      have "length (json_items vs) < m" using len n False by simp
      then have "parse_items m (json_items vs @ CHR '']'' # rest) = Some (vs, rest)"
        using "8.IH"(2) False by blast
      from parse_items_more [OF v this] show ?thesis using n False by simp
    qed
  qed
next
  case 9
  show ?case by simp
next
  case (10 kv kvs)
  show ?case
  proof (intro allI impI)
    fix n rest assume len: "length (json_members (kv # kvs)) < n"
    then obtain m where n: "n = Suc m" by (cases n) auto
    show "parse_members n (json_members (kv # kvs) @ CHR ''}'' # rest) = Some (kv # kvs, rest)"
    proof (cases "kvs = []")
      case True
      have "length (json_dumps (snd kv)) \<le> m" using len n True by simp
      then have "parse_value m (json_dumps (snd kv) @ CHR ''}'' # rest) = Some (snd kv, CHR ''}'' # rest)"
        using "10.IH"(1) by (simp add: is_digit_def)
      from parse_members_last [OF this, of "fst kv"] show ?thesis using n True by simp
    next
      case False
      have "length (json_dumps (snd kv)) \<le> m" using len n False by simp
      then have v: "parse_value m (json_dumps (snd kv) @ CHR '','' # json_members kvs @ CHR ''}'' # rest)
          = Some (snd kv, CHR '','' # json_members kvs @ CHR ''}'' # rest)"
        using "10.IH"(1) by (simp add: is_digit_def)
      have "length (json_members kvs) < m" using len n False by simp
      then have "parse_members m (json_members kvs @ CHR ''}'' # rest) = Some (kvs, rest)"
        using "10.IH"(2) False by blast
      from parse_members_more [OF v this, of "fst kv"] show ?thesis using n False by simp
    qed
  qed
qed

lemma json_loads_dumps: "json_loads (json_dumps v) = Some v"
proof -
  have "parse_value (length (json_dumps v)) (json_dumps v @ []) = Some (v, [])"
    using json_roundtrip(1) [of v] by blast
  then show ?thesis by (simp add: json_loads_def skip_ws_def)
qed

section \<open>The JSON text of a result parses back\<close>

lemma strip_id:
  assumes "s \<noteq> []" and "hd s \<notin> set cs" and "last s \<notin> set cs"
  shows "strip s cs = s"
proof -
  have 1: "dropWhile (\<lambda>c. c \<in> set cs) s = s" using assms(1,2) by (cases s) auto
  have "rev s \<noteq> []" "hd (rev s) \<notin> set cs" using assms(1,3) by (simp_all add: hd_rev)
  then have 2: "dropWhile (\<lambda>c. c \<in> set cs) (rev s) = rev s" by (cases "rev s") auto
  show ?thesis by (simp add: strip_def 1 2)
qed

lemma digits_last: "is_digit (last (digits n))"
  using digits_nonempty [of n] digits_all [of "last (digits n)" n] by simp

lemma json_dumps_last: "last (json_dumps v) \<noteq> nl"
proof (cases v)
  case PNone
  then show ?thesis by (simp add: nl_def)
next
  case (PBool b)
  then show ?thesis by (simp add: nl_def)
next
  case (PInt i)
  have "is_digit (last (json_int i))"
    using digits_last digits_nonempty by (simp add: json_int_def)
  then show ?thesis using PInt by (auto simp: is_digit_def nl_def)
next
  case (PStr s)
  then show ?thesis by (simp add: json_string_def nl_def dq_def)
next
  case (PList vs)
  then show ?thesis by (simp add: nl_def)
next
  case (PDict kvs)
  then show ?thesis by (simp add: nl_def)
qed

lemma strip_json_dumps: "strip (json_dumps v) [nl] = json_dumps v"
proof -
  obtain c cs where c: "json_dumps v = c # cs" "\<not> is_ws c" using json_dumps_hd by blast
  then have "hd (json_dumps v) \<noteq> nl" by (auto simp: is_ws_def nl_def)
  then show ?thesis using c(1) json_dumps_last [of v] by (intro strip_id) simp_all
qed

text \<open>
  Claim C8. For every result, parsing the text that \<^verbatim>\<open>echo_result\<close> makes of it with
  the JSON formatter (the formatter's text with the newlines at its ends stripped)
  gives the result back, and so does parsing that text followed by the newline that
  \<^verbatim>\<open>click.echo\<close> appends.
\<close>
theorem json_output_reparses_to_result:
  "json_loads (strip (json_formatter result verbose) [nl]) = Some result
   \<and> json_loads (strip (json_formatter result verbose) [nl] @ [nl]) = Some result"
proof -
  have r: "[nl] = [] \<or> \<not> is_digit (hd [nl])" by (simp add: is_digit_def nl_def)
  have l: "length (json_dumps result) \<le> length (json_dumps result @ [nl])" by simp
  have "parse_value (length (json_dumps result @ [nl])) (json_dumps result @ [nl]) = Some (result, [nl])"
    using json_roundtrip(1) [of result] l r by blast
  then have "json_loads (json_dumps result @ [nl]) = Some result"
    by (simp add: json_loads_def skip_ws_def is_ws_def nl_def)
  then show ?thesis by (simp add: json_formatter_def strip_json_dumps json_loads_dumps)
qed

theorem json_output_reparses_to_result_witness:
  "json_loads (strip (json_formatter
      (PDict [(''verdict'', PStr ''ok''), (''scores'', PList [PInt 3, PInt (- 1), PNone, PBool True])])
      False) [nl])
   = Some (PDict [(''verdict'', PStr ''ok''), (''scores'', PList [PInt 3, PInt (- 1), PNone, PBool True])])"
  using json_output_reparses_to_result
    [of "PDict [(''verdict'', PStr ''ok''), (''scores'', PList [PInt 3, PInt (- 1), PNone, PBool True])]" False]
  by simp

end
